theory Spec2Isabelle
  imports Complex_Main
begin

section \<open>Data model\<close>

text \<open>
  The two analysis scripts \<^verbatim>\<open>edies_analysis.py\<close> and \<^verbatim>\<open>mixed_edies_analysis.py\<close>
  keep, for every vehicle id, a dictionary of parallel arrays
  \<^verbatim>\<open>{'time': [], 'pos': [], 'speed': [], 'lane': []}\<close> (the mixed script adds
  \<^verbatim>\<open>'type': None\<close>). The dictionary of all vehicles is a Python dict: iteration is in
  insertion order, so it is an association list here.

  Python floats are modelled by exact reals. NaN, which the code only produces as the
  \<^verbatim>\<open>left\<close>/\<open>right\<close> value of \<^verbatim>\<open>np.interp\<close>, is the value \<open>None\<close> of an option.
\<close>

record vehicle_data =
  time :: "real list"
  pos :: "real list"
  speed :: "real list"
  lane :: "string list"
  vtype :: "string option"

type_synonym trajectories = "(string \<times> vehicle_data) list"

text \<open>
  The exceptions the modelled code can raise, named by the place that raises them:
  \<^item> \<open>EmptySequence\<close>: the \<^verbatim>\<open>ValueError\<close> of \<^verbatim>\<open>np.concatenate([])\<close>, of \<^verbatim>\<open>np.min\<close> on an
    empty array and of \<^verbatim>\<open>min([])\<close>;
  \<^item> \<open>ZeroStep\<close>: the exception of \<^verbatim>\<open>np.arange\<close> with step 0;
  \<^item> \<open>NegativeDimension\<close>: the \<^verbatim>\<open>ValueError\<close> of \<^verbatim>\<open>np.zeros\<close> with a negative dimension;
  \<^item> \<open>MaskLength\<close>: the \<^verbatim>\<open>IndexError\<close> of indexing an array with a boolean mask of
    another length;
  \<^item> \<open>ZeroDivision\<close>: a division whose divisor is zero.
\<close>

datatype error = EmptySequence | ZeroStep | NegativeDimension | MaskLength | ZeroDivision

section \<open>Array primitives\<close>

text \<open>\<^verbatim>\<open>a[mask]\<close> for a boolean array \<^verbatim>\<open>mask\<close>: the entries of \<^verbatim>\<open>a\<close> where the mask is true.\<close>

definition masked :: "'a list \<Rightarrow> bool list \<Rightarrow> 'a list" where
  "masked xs m = map fst (filter snd (zip xs m))"

definition bool_index :: "'a list \<Rightarrow> bool list \<Rightarrow> error + 'a list" where
  "bool_index xs m = (if length m = length xs then Inr (masked xs m) else Inl MaskLength)"

text \<open>
  \<^verbatim>\<open>p % total_length\<close> on floats: the remainder has the sign of the divisor. For a zero
  divisor numpy gives NaN, which this model does not represent; the grid has no cell when
  \<^verbatim>\<open>total_length\<close> is 0 (lemma \<open>cells_total_length_nonzero\<close> below), so the loop
  body never runs there.
\<close>

definition wrap :: "real \<Rightarrow> real \<Rightarrow> real" where
  "wrap p total_length = p - total_length * of_int \<lfloor>p / total_length\<rfloor>"

text \<open>
  \<^verbatim>\<open>np.interp(x, xp, fp, left=np.nan, right=np.nan)\<close> for one abscissa \<open>x\<close> and a table of
  at least two points. numpy first compares \<open>x\<close> with the last and the first entry of
  \<^verbatim>\<open>xp\<close> (giving \<^verbatim>\<open>right\<close> and \<^verbatim>\<open>left\<close>), then searches the interval; \<open>search\<close> is its
  linear search \<^verbatim>\<open>for (i = 1; i < len && key >= arr[i]; ++i); return i - 1\<close>, which agrees
  with its bisection on an increasing table. numpy does not check that \<^verbatim>\<open>xp\<close> increases.
  On a zero-width interval the float result is infinite, not NaN; the real-valued model
  returns some number there. The callers only test the result for NaN.
\<close>

fun search :: "real \<Rightarrow> real list \<Rightarrow> nat \<Rightarrow> nat" where
  "search key [] i = i"
| "search key (a # arr) i = (if key \<ge> a then search key arr (Suc i) else i)"

definition interp :: "real \<Rightarrow> real list \<Rightarrow> real list \<Rightarrow> real option" where
  "interp x xp fp =
     (if x > last xp then None
      else if x < hd xp then None
      else let j = search x (tl xp) 0
           in if j = length xp - 1 then Some (fp ! j)
              else if xp ! j = x then Some (fp ! j)
              else Some ((fp ! (j + 1) - fp ! j) / (xp ! (j + 1) - xp ! j) * (x - xp ! j) + fp ! j))"

definition isnan :: "real option \<Rightarrow> bool" where
  "isnan r = (r = None)"

text \<open>\<^verbatim>\<open>np.any(m)\<close> and \<^verbatim>\<open>m.all()\<close> of a boolean array.\<close>

definition np_any :: "bool list \<Rightarrow> bool" where
  "np_any m = list_ex (\<lambda>b. b) m"

definition np_all :: "bool list \<Rightarrow> bool" where
  "np_all m = list_all (\<lambda>b. b) m"

section \<open>The aggregation of one cell\<close>

text \<open>The three running totals of a cell (lines 83-85 of \<^verbatim>\<open>edies_analysis.py\<close>).\<close>

record cell_acc =
  total_time_spent :: real
  total_distance :: real
  vehicles_crossed :: nat

definition cell_acc0 :: cell_acc where
  "cell_acc0 = \<lparr>total_time_spent = 0, total_distance = 0, vehicles_crossed = 0\<rparr>"

text \<open>
  The body of \<^verbatim>\<open>for veh_id, data in trajectories.items()\<close> after the type filter
  (lines 89-124 of \<^verbatim>\<open>edies_analysis.py\<close>, 100-135 of \<^verbatim>\<open>mixed_edies_analysis.py\<close>; the two
  are the same text). \<^verbatim>\<open>times[mask]\<close> and \<^verbatim>\<open>positions[mask]\<close> cannot fail: \<^verbatim>\<open>times\<close>,
  \<^verbatim>\<open>positions\<close> and \<^verbatim>\<open>mask\<close> all have one entry per true entry of \<^verbatim>\<open>time_mask\<close>.
\<close>

definition process_vehicle ::
  "real \<Rightarrow> real \<Rightarrow> real \<Rightarrow> real \<Rightarrow> real \<Rightarrow> real \<Rightarrow> vehicle_data \<Rightarrow> cell_acc \<Rightarrow> error + cell_acc" where
  "process_vehicle dt total_length t_start t_end x_start x_end data acc =
     (let time_mask = map (\<lambda>t. t \<ge> t_start - dt \<and> t \<le> t_end + dt) (time data) in
      if \<not> np_any time_mask then Inr acc
      else
        case bool_index (time data) time_mask of Inl e \<Rightarrow> Inl e | Inr times' \<Rightarrow>
        case bool_index (pos data) time_mask of Inl e \<Rightarrow> Inl e | Inr ps \<Rightarrow>
        let positions = map (\<lambda>p. wrap p total_length) ps in
        case bool_index (speed data) time_mask of Inl e \<Rightarrow> Inl e | Inr speeds \<Rightarrow>
        if length times' > 1 then
          let t_interp = [interp x_start positions times', interp x_end positions times'];
              mask = map (\<lambda>p. p \<ge> x_start \<and> p < x_end) positions;
              cell_times = masked times' mask;
              cell_positions = masked positions mask
          in
            if length cell_times > 0 then
              let time_in_cell = min t_end (last cell_times) - max t_start (hd cell_times);
                  acc1 =
                    (if time_in_cell > 0 then
                       let acc' = acc\<lparr>total_time_spent := total_time_spent acc + time_in_cell\<rparr>;
                           pos_start = max x_start (hd cell_positions);
                           pos_end = min x_end (last cell_positions);
                           distance = pos_end - pos_start
                       in if distance > 0
                          then acc'\<lparr>total_distance := total_distance acc' + distance\<rparr>
                          else acc'
                     else acc)
              in Inr (if \<not> np_all (map isnan t_interp)
                      then acc1\<lparr>vehicles_crossed := vehicles_crossed acc1 + 1\<rparr>
                      else acc1)
            else Inr acc
        else Inr acc)"


text \<open>
  The arrays the loop body works on, named as in the source, for stating properties:
  the margin window \<^verbatim>\<open>time_mask\<close>, \<^verbatim>\<open>times\<close> and \<^verbatim>\<open>positions\<close> (lines 90-95), the cell
  \<^verbatim>\<open>mask\<close> (line 105), \<^verbatim>\<open>time_in_cell\<close> (line 111) and \<^verbatim>\<open>distance\<close> (lines 116-118).
\<close>

definition time_mask :: "real \<Rightarrow> real \<Rightarrow> real \<Rightarrow> vehicle_data \<Rightarrow> bool list" where
  "time_mask dt t_start t_end data = map (\<lambda>t. t \<ge> t_start - dt \<and> t \<le> t_end + dt) (time data)"

definition window_times :: "real \<Rightarrow> real \<Rightarrow> real \<Rightarrow> vehicle_data \<Rightarrow> real list" where
  "window_times dt t_start t_end data = masked (time data) (time_mask dt t_start t_end data)"

definition window_positions :: "real \<Rightarrow> real \<Rightarrow> real \<Rightarrow> real \<Rightarrow> vehicle_data \<Rightarrow> real list" where
  "window_positions dt total_length t_start t_end data =
     map (\<lambda>p. wrap p total_length) (masked (pos data) (time_mask dt t_start t_end data))"

definition cell_mask :: "real \<Rightarrow> real \<Rightarrow> real list \<Rightarrow> bool list" where
  "cell_mask x_start x_end positions = map (\<lambda>p. p \<ge> x_start \<and> p < x_end) positions"

definition time_in_cell :: "real \<Rightarrow> real \<Rightarrow> real list \<Rightarrow> real" where
  "time_in_cell t_start t_end cell_times = min t_end (last cell_times) - max t_start (hd cell_times)"

definition distance_in_cell :: "real \<Rightarrow> real \<Rightarrow> real list \<Rightarrow> real" where
  "distance_in_cell x_start x_end cell_positions =
     min x_end (last cell_positions) - max x_start (hd cell_positions)"

text \<open>The three arrays of a vehicle have one entry per sample.\<close>

definition parallel_arrays :: "vehicle_data \<Rightarrow> bool" where
  "parallel_arrays data =
     (length (pos data) = length (time data) \<and> length (speed data) = length (time data))"

text \<open>An abscissa off the sampled range of an interpolation table.\<close>

definition off_range :: "real \<Rightarrow> real list \<Rightarrow> bool" where
  "off_range x xp = (x < hd xp \<or> last xp < x)"

text \<open>
  \<^verbatim>\<open>for veh_id, data in trajectories.items()\<close>: the loop of \<^verbatim>\<open>edies_analysis.py\<close>, and the
  loop of \<^verbatim>\<open>mixed_edies_analysis.py\<close>, which first skips the vehicles of another type
  (lines 97-98).
\<close>

fun vehicles_loop ::
  "real \<Rightarrow> real \<Rightarrow> real \<Rightarrow> real \<Rightarrow> real \<Rightarrow> real \<Rightarrow> trajectories \<Rightarrow> cell_acc \<Rightarrow> error + cell_acc" where
  "vehicles_loop dt total_length t_start t_end x_start x_end [] acc = Inr acc"
| "vehicles_loop dt total_length t_start t_end x_start x_end ((veh_id, data) # rest) acc =
     (case process_vehicle dt total_length t_start t_end x_start x_end data acc of
        Inl e \<Rightarrow> Inl e
      | Inr acc' \<Rightarrow> vehicles_loop dt total_length t_start t_end x_start x_end rest acc')"

fun vehicles_loop_mixed ::
  "string option \<Rightarrow> real \<Rightarrow> real \<Rightarrow> real \<Rightarrow> real \<Rightarrow> real \<Rightarrow> real \<Rightarrow> trajectories \<Rightarrow> cell_acc
     \<Rightarrow> error + cell_acc" where
  "vehicles_loop_mixed veh_type dt total_length t_start t_end x_start x_end [] acc = Inr acc"
| "vehicles_loop_mixed veh_type dt total_length t_start t_end x_start x_end ((veh_id, data) # rest) acc =
     (if veh_type \<noteq> None \<and> vtype data \<noteq> veh_type
      then vehicles_loop_mixed veh_type dt total_length t_start t_end x_start x_end rest acc
      else
        case process_vehicle dt total_length t_start t_end x_start x_end data acc of
          Inl e \<Rightarrow> Inl e
        | Inr acc' \<Rightarrow> vehicles_loop_mixed veh_type dt total_length t_start t_end x_start x_end rest acc')"

section \<open>The grid and the state of the aggregation\<close>

text \<open>
  \<^verbatim>\<open>np.arange(start, stop, step)\<close> has \<open>\<lceil>(stop - start) / step\<rceil>\<close> entries (none when that is
  not positive), entry \<open>i\<close> being \<open>start + i * step\<close>; a zero step raises.
  \<^verbatim>\<open>np.zeros((r, c))\<close> raises on a negative dimension.
\<close>

definition arange :: "real \<Rightarrow> real \<Rightarrow> real \<Rightarrow> error + real list" where
  "arange start stop step =
     (if step = 0 then Inl ZeroStep
      else Inr (map (\<lambda>i. start + real i * step) [0..<nat \<lceil>(stop - start) / step\<rceil>]))"

definition zeros :: "int \<Rightarrow> int \<Rightarrow> error + real list list" where
  "zeros r c =
     (if r < 0 \<or> c < 0 then Inl NegativeDimension
      else Inr (replicate (nat r) (replicate (nat c) 0)))"

text \<open>\<^verbatim>\<open>np.min\<close> and \<^verbatim>\<open>np.max\<close> of a non-empty array.\<close>

definition np_min :: "real list \<Rightarrow> real" where
  "np_min xs = fold min (tl xs) (hd xs)"

definition np_max :: "real list \<Rightarrow> real" where
  "np_max xs = fold max (tl xs) (hd xs)"

text \<open>
  The function reads the trajectory table and writes the three arrays. The state that
  the loops thread is the table (a mutable dict of mutable arrays, passed by reference)
  together with the three arrays; every statement is a function from the state to an
  optional exception and the state after it.
\<close>

record agg_state =
  table :: trajectories
  density :: "real list list"
  flow :: "real list list"
  speed_grid :: "real list list"

type_synonym stmt = "agg_state \<Rightarrow> error option \<times> agg_state"

definition seq :: "stmt \<Rightarrow> stmt \<Rightarrow> stmt" where
  "seq f g s = (case f s of (Some e, s') \<Rightarrow> (Some e, s') | (None, s') \<Rightarrow> g s')"

definition skip :: stmt where
  "skip s = (None, s)"

primrec for_loop :: "(nat \<Rightarrow> stmt) \<Rightarrow> nat list \<Rightarrow> stmt" where
  "for_loop body [] s = (None, s)"
| "for_loop body (i # is) s =
     (case body i s of (Some e, s') \<Rightarrow> (Some e, s') | (None, s') \<Rightarrow> for_loop body is s')"

text \<open>\<^verbatim>\<open>a[i, j] = v\<close>; the loops only write inside the arrays.\<close>

definition set2d :: "real list list \<Rightarrow> nat \<Rightarrow> nat \<Rightarrow> real \<Rightarrow> real list list" where
  "set2d a i j v = a[i := (a ! i)[j := v]]"

definition py_div :: "real \<Rightarrow> real \<Rightarrow> error + real" where
  "py_div a b = (if b = 0 then Inl ZeroDivision else Inr (a / b))"

definition assign_density :: "nat \<Rightarrow> nat \<Rightarrow> error + real \<Rightarrow> stmt" where
  "assign_density t_idx x_idx r s =
     (case r of Inl e \<Rightarrow> (Some e, s)
      | Inr v \<Rightarrow> (None, s\<lparr>density := set2d (density s) t_idx x_idx v\<rparr>))"

definition assign_flow :: "nat \<Rightarrow> nat \<Rightarrow> error + real \<Rightarrow> stmt" where
  "assign_flow t_idx x_idx r s =
     (case r of Inl e \<Rightarrow> (Some e, s)
      | Inr v \<Rightarrow> (None, s\<lparr>flow := set2d (flow s) t_idx x_idx v\<rparr>))"

definition assign_speed :: "nat \<Rightarrow> nat \<Rightarrow> error + real \<Rightarrow> stmt" where
  "assign_speed t_idx x_idx r s =
     (case r of Inl e \<Rightarrow> (Some e, s)
      | Inr v \<Rightarrow> (None, s\<lparr>speed_grid := set2d (speed_grid s) t_idx x_idx v\<rparr>))"

text \<open>Lines 126-139: the three guarded divisions that end a cell.\<close>

definition finish_cell :: "real \<Rightarrow> real \<Rightarrow> nat \<Rightarrow> nat \<Rightarrow> cell_acc \<Rightarrow> stmt" where
  "finish_cell dx dt t_idx x_idx acc =
     (let area = dx * dt in
      seq (if area > 0
           then assign_density t_idx x_idx (py_div (total_time_spent acc) area)
           else skip)
     (seq (if dt > 0
           then assign_flow t_idx x_idx (py_div (real (vehicles_crossed acc)) dt)
           else skip)
          (if total_time_spent acc > 0
           then assign_speed t_idx x_idx (py_div (total_distance acc) (total_time_spent acc))
           else skip)))"

text \<open>Lines 78-139: the body of the loop over \<^verbatim>\<open>x_idx\<close>, for both scripts.\<close>

definition process_cell ::
  "(trajectories \<Rightarrow> cell_acc \<Rightarrow> error + cell_acc) \<Rightarrow> real \<Rightarrow> real \<Rightarrow> nat \<Rightarrow> nat \<Rightarrow> stmt" where
  "process_cell vehicles dx dt t_idx x_idx s =
     (case vehicles (table s) cell_acc0 of
        Inl e \<Rightarrow> (Some e, s)
      | Inr acc \<Rightarrow> finish_cell dx dt t_idx x_idx acc s)"

definition cell_loops ::
  "(real \<Rightarrow> real \<Rightarrow> real \<Rightarrow> real \<Rightarrow> trajectories \<Rightarrow> cell_acc \<Rightarrow> error + cell_acc)
     \<Rightarrow> real \<Rightarrow> real \<Rightarrow> real list \<Rightarrow> real list \<Rightarrow> stmt" where
  "cell_loops vehicles dx dt t_bins x_bins =
     for_loop (\<lambda>t_idx.
       let t_start = t_bins ! t_idx; t_end = t_bins ! (t_idx + 1) in
       for_loop (\<lambda>x_idx.
         let x_start = x_bins ! x_idx; x_end = x_bins ! (x_idx + 1) in
         process_cell (vehicles t_start t_end x_start x_end) dx dt t_idx x_idx)
         [0..<length x_bins - 1])
       [0..<length t_bins - 1]"

text \<open>\<^verbatim>\<open>a *= c\<close> on a two-dimensional array.\<close>

definition scale :: "real \<Rightarrow> real list list \<Rightarrow> real list list" where
  "scale c a = map (map (\<lambda>v. v * c)) a"

type_synonym grids = "real list list \<times> real list list \<times> real list list \<times> real list \<times> real list"

text \<open>
  Lines 66-146, from the time range on: grid, arrays, cell loops, unit conversion. The
  result is the returned tuple or the exception, and the table as the call leaves it.
\<close>

definition aggregate ::
  "(real \<Rightarrow> real \<Rightarrow> real \<Rightarrow> real \<Rightarrow> trajectories \<Rightarrow> cell_acc \<Rightarrow> error + cell_acc)
     \<Rightarrow> real list \<Rightarrow> trajectories \<Rightarrow> real \<Rightarrow> real \<Rightarrow> real \<Rightarrow> (error + grids) \<times> trajectories" where
  "aggregate vehicles all_times trajectories dx dt total_length =
     (if all_times = [] then (Inl EmptySequence, trajectories)
      else
        let t_min = np_min all_times; t_max = np_max all_times in
        case arange 0 (total_length + dx) dx of Inl e \<Rightarrow> (Inl e, trajectories) | Inr x_bins \<Rightarrow>
        case arange t_min (t_max + dt) dt of Inl e \<Rightarrow> (Inl e, trajectories) | Inr t_bins \<Rightarrow>
        case zeros (int (length t_bins) - 1) (int (length x_bins) - 1) of
          Inl e \<Rightarrow> (Inl e, trajectories)
        | Inr z \<Rightarrow>
            (case cell_loops vehicles dx dt t_bins x_bins
                    \<lparr>table = trajectories, density = z, flow = z, speed_grid = z\<rparr> of
               (Some e, s) \<Rightarrow> (Inl e, table s)
             | (None, s) \<Rightarrow>
                 (Inr (scale 1000 (density s), scale 3600 (flow s), scale 3.6 (speed_grid s),
                       butlast t_bins, butlast x_bins),
                  table s)))"

text \<open>
  \<^verbatim>\<open>calculate_macroscopic_quantities\<close> of \<^verbatim>\<open>edies_analysis.py\<close>: the time range comes from
  \<^verbatim>\<open>np.concatenate\<close> over all vehicles (lines 64-65).
\<close>

definition calculate_macroscopic_quantities ::
  "trajectories \<Rightarrow> real \<Rightarrow> real \<Rightarrow> real \<Rightarrow> (error + grids) \<times> trajectories" where
  "calculate_macroscopic_quantities trajectories dx dt total_length =
     aggregate (\<lambda>t_start t_end x_start x_end. vehicles_loop dt total_length t_start t_end x_start x_end)
       (concat (map (\<lambda>(veh_id, data). time data) trajectories))
       trajectories dx dt total_length"

text \<open>
  \<^verbatim>\<open>calculate_macroscopic_quantities\<close> of \<^verbatim>\<open>mixed_edies_analysis.py\<close>: the time range comes
  from the vehicles of the requested type (lines 69-73).
\<close>

definition calculate_macroscopic_quantities_mixed ::
  "trajectories \<Rightarrow> real \<Rightarrow> real \<Rightarrow> real \<Rightarrow> string option \<Rightarrow> (error + grids) \<times> trajectories" where
  "calculate_macroscopic_quantities_mixed trajectories dx dt total_length veh_type =
     aggregate
       (\<lambda>t_start t_end x_start x_end.
          vehicles_loop_mixed veh_type dt total_length t_start t_end x_start x_end)
       (concat (map (\<lambda>(vid, data). time data)
          (filter (\<lambda>(vid, data). veh_type = None \<or> vtype data = veh_type) trajectories)))
       trajectories dx dt total_length"

section \<open>The trajectory reconstruction\<close>

text \<open>
  \<^verbatim>\<open>parse_fcd_file\<close> reads the XML trace with \<^verbatim>\<open>ET.iterparse\<close>; its input here is what the
  reader delivers: the \<^verbatim>\<open>timestep\<close> elements in file order, each with its time and its
  \<^verbatim>\<open>vehicle\<close> elements, every attribute present and numeric.
\<close>

record observation =
  veh_id :: string
  obs_lane :: string
  raw_pos :: real
  obs_speed :: real
  obs_type :: string

type_synonym timestep = "real \<times> observation list"

definition main_circle_length :: real where
  "main_circle_length = 901.53"

definition corridor_length :: real where
  "corridor_length = 1000"

text \<open>
  \<^verbatim>\<open>trajectories = defaultdict(lambda: {'time': [], 'pos': [], 'speed': [], 'lane': []})\<close>:
  reading a missing key gives the default entry, and writing a new key appends it.
\<close>

definition default_data :: vehicle_data where
  "default_data = \<lparr>time = [], pos = [], speed = [], lane = [], vtype = None\<rparr>"

fun dict_get :: "trajectories \<Rightarrow> string \<Rightarrow> vehicle_data" where
  "dict_get [] k = default_data"
| "dict_get ((k', d) # rest) k = (if k' = k then d else dict_get rest k)"

fun dict_set :: "trajectories \<Rightarrow> string \<Rightarrow> vehicle_data \<Rightarrow> trajectories" where
  "dict_set [] k v = [(k, v)]"
| "dict_set ((k', d) # rest) k v = (if k' = k then (k, v) # rest else (k', d) # dict_set rest k v)"

text \<open>Lines 22-35 of \<^verbatim>\<open>edies_analysis.py\<close>: the position appended for one observation.\<close>

definition continuous_pos :: "real list \<Rightarrow> string \<Rightarrow> real \<Rightarrow> real" where
  "continuous_pos previous lane' raw =
     (let pos' = (if lane' = ''b_0'' then main_circle_length + raw else raw)
      in if previous \<noteq> [] then
           let prev_pos = last previous
           in if prev_pos > pos' + corridor_length / 2 then pos' + corridor_length else pos'
         else pos')"

text \<open>Lines 17-40 of \<^verbatim>\<open>edies_analysis.py\<close>: the body of the loop over the vehicles.\<close>

definition add_observation :: "real \<Rightarrow> observation \<Rightarrow> trajectories \<Rightarrow> trajectories" where
  "add_observation t vehicle trajectories =
     (let data = dict_get trajectories (veh_id vehicle);
          pos' = continuous_pos (pos data) (obs_lane vehicle) (raw_pos vehicle)
      in dict_set trajectories (veh_id vehicle)
           (data\<lparr>time := time data @ [t],
                 pos := pos data @ [pos'],
                 speed := speed data @ [obs_speed vehicle],
                 lane := lane data @ [obs_lane vehicle]\<rparr>))"

text \<open>\<^verbatim>\<open>'regular' in veh_type\<close>: substring test.\<close>

definition contains :: "string \<Rightarrow> string \<Rightarrow> bool" where
  "contains sub s = list_ex (\<lambda>i. take (length sub) (drop i s) = sub) [0..<Suc (length s)]"

text \<open>
  Lines 17-45 of \<^verbatim>\<open>mixed_edies_analysis.py\<close>: the same body, which first records the
  vehicle's type.
\<close>

definition add_observation_mixed :: "real \<Rightarrow> observation \<Rightarrow> trajectories \<Rightarrow> trajectories" where
  "add_observation_mixed t vehicle trajectories =
     (let data0 = dict_get trajectories (veh_id vehicle);
          data = (if vtype data0 = None
                  then data0\<lparr>vtype := Some (if contains ''regular'' (obs_type vehicle)
                                             then ''regular'' else ''stable'')\<rparr>
                  else data0);
          pos' = continuous_pos (pos data) (obs_lane vehicle) (raw_pos vehicle)
      in dict_set trajectories (veh_id vehicle)
           (data\<lparr>time := time data @ [t],
                 pos := pos data @ [pos'],
                 speed := speed data @ [obs_speed vehicle],
                 lane := lane data @ [obs_lane vehicle]\<rparr>))"

text \<open>
  Lines 54-57: \<^verbatim>\<open>for i in range(1, len(positions))\<close>, where \<^verbatim>\<open>positions[i:] += total_length\<close>
  updates the array of the table in place.
\<close>

definition lap_step :: "nat \<Rightarrow> real list \<Rightarrow> real list" where
  "lap_step i positions =
     (if positions ! i < positions ! (i - 1) - corridor_length / 2
      then take i positions @ map (\<lambda>p. p + corridor_length) (drop i positions)
      else positions)"

definition adjust_laps :: "real list \<Rightarrow> real list" where
  "adjust_laps positions = fold lap_step [1..<length positions] positions"

definition read_stream ::
  "(real \<Rightarrow> observation \<Rightarrow> trajectories \<Rightarrow> trajectories) \<Rightarrow> timestep list \<Rightarrow> trajectories" where
  "read_stream add stream = fold (\<lambda>(t, vehicles). fold (add t) vehicles) stream []"

definition parse_fcd_file :: "timestep list \<Rightarrow> trajectories" where
  "parse_fcd_file stream =
     map (\<lambda>(veh_id, data). (veh_id, data\<lparr>pos := adjust_laps (pos data)\<rparr>))
       (read_stream add_observation stream)"

definition parse_fcd_file_mixed :: "timestep list \<Rightarrow> trajectories" where
  "parse_fcd_file_mixed stream =
     map (\<lambda>(veh_id, data). (veh_id, data\<lparr>pos := adjust_laps (pos data)\<rparr>))
       (read_stream add_observation_mixed stream)"

section \<open>Concrete inputs\<close>

text \<open>A vehicle with two samples, and a vehicle seen in a cell only after the cell's time bin.\<close>

definition two_samples :: "real \<Rightarrow> real \<Rightarrow> real \<Rightarrow> real \<Rightarrow> vehicle_data" where
  "two_samples t1 p1 t2 p2 =
     \<lparr>time = [t1, t2], pos = [p1, p2], speed = [0, 0], lane = [''a_0'', ''a_0''], vtype = None\<rparr>"

definition late_samples :: vehicle_data where
  "late_samples = \<lparr>time = [0, 12, 14], pos = [500, 10, 20], speed = [0, 5, 5],
     lane = [''a_0'', ''a_0'', ''a_0''], vtype = None\<rparr>"

text \<open>
  A vehicle that passes through the spatial bin \<open>[100, 200)\<close> after the time bin
  \<open>[0, 10)\<close>, and a vehicle that is in the spatial bin \<open>[100, 200)\<close> before and after
  the time bin \<open>[5, 15)\<close> but is not sampled during it.
\<close>

definition passing_vehicle :: vehicle_data where
  "passing_vehicle = \<lparr>time = [0, 12, 14], pos = [50, 150, 250], speed = [0, 0, 0],
     lane = [''a_0'', ''a_0'', ''a_0''], vtype = None\<rparr>"

definition straddling_vehicle :: vehicle_data where
  "straddling_vehicle = \<lparr>time = [-5, -4, 16], pos = [90, 110, 190], speed = [0, 0, 0],
     lane = [''a_0'', ''a_0'', ''a_0''], vtype = None\<rparr>"


section \<open>Notions for stating and proving the properties\<close>

text \<open>
  Two vehicles, and two tables, that are equal except in their per-sample speed values:
  the same vehicle ids in the same order, the same samples, as many speed values.
\<close>

definition differ_in_speed_only :: "vehicle_data \<Rightarrow> vehicle_data \<Rightarrow> bool" where
  "differ_in_speed_only d d' =
     (time d = time d' \<and> pos d = pos d' \<and> lane d = lane d' \<and> vtype d = vtype d'
      \<and> length (speed d) = length (speed d'))"

definition tables_differ_in_speed_only :: "trajectories \<Rightarrow> trajectories \<Rightarrow> bool" where
  "tables_differ_in_speed_only tr tr' =
     list_all2 (\<lambda>p p'. fst p = fst p' \<and> differ_in_speed_only (snd p) (snd p')) tr tr'"

definition same_grids :: "agg_state \<Rightarrow> agg_state \<Rightarrow> bool" where
  "same_grids s s' =
     (tables_differ_in_speed_only (table s) (table s') \<and> density s = density s'
      \<and> flow s = flow s' \<and> speed_grid s = speed_grid s')"

text \<open>The table of the concrete scenarios with other speed values.\<close>

definition two_samples_fast :: "real \<Rightarrow> real \<Rightarrow> real \<Rightarrow> real \<Rightarrow> vehicle_data" where
  "two_samples_fast t1 p1 t2 p2 =
     \<lparr>time = [t1, t2], pos = [p1, p2], speed = [7, 9], lane = [''a_0'', ''a_0''], vtype = None\<rparr>"

text \<open>
  What the three guarded divisions at the end of a cell leave in arrays that start as
  zeros (lines 126-139), before the unit conversion.
\<close>

definition cell_value :: "real \<Rightarrow> real \<Rightarrow> cell_acc \<Rightarrow> real \<times> real \<times> real" where
  "cell_value dx dt acc =
     (if dx * dt > 0 then total_time_spent acc / (dx * dt) else 0,
      if dt > 0 then real (vehicles_crossed acc) / dt else 0,
      if total_time_spent acc > 0 then total_distance acc / total_time_spent acc else 0)"

definition cell_at :: "agg_state \<Rightarrow> nat \<Rightarrow> nat \<Rightarrow> real \<times> real \<times> real" where
  "cell_at s t x = (density s ! t ! x, flow s ! t ! x, speed_grid s ! t ! x)"

definition grid_shape :: "nat \<Rightarrow> nat \<Rightarrow> real list list \<Rightarrow> bool" where
  "grid_shape r c a = (length a = r \<and> (\<forall>i<r. length (a ! i) = c))"

text \<open>
  The state of the two nested loops when they reach the cell \<open>(t, x)\<close>: the cells before it
  (in the order of the loops) hold their final values, the others are still zero.
\<close>

definition cells_inv ::
  "(real \<Rightarrow> real \<Rightarrow> real \<Rightarrow> real \<Rightarrow> trajectories \<Rightarrow> cell_acc \<Rightarrow> error + cell_acc)
     \<Rightarrow> real \<Rightarrow> real \<Rightarrow> real list \<Rightarrow> real list \<Rightarrow> trajectories \<Rightarrow> nat \<Rightarrow> nat \<Rightarrow> agg_state \<Rightarrow> bool" where
  "cells_inv vehicles dx dt t_bins x_bins tr t x s =
     (table s = tr
      \<and> grid_shape (length t_bins - 1) (length x_bins - 1) (density s)
      \<and> grid_shape (length t_bins - 1) (length x_bins - 1) (flow s)
      \<and> grid_shape (length t_bins - 1) (length x_bins - 1) (speed_grid s)
      \<and> (\<forall>t'<length t_bins - 1. \<forall>x'<length x_bins - 1.
            if t' < t \<or> (t' = t \<and> x' < x)
            then \<exists>acc. vehicles (t_bins ! t') (t_bins ! (t' + 1)) (x_bins ! x') (x_bins ! (x' + 1))
                         tr cell_acc0 = Inr acc
                     \<and> cell_at s t' x' = cell_value dx dt acc
            else cell_at s t' x' = (0, 0, 0)))"

text \<open>
  Two notions of a cell without samples. \<open>no_sample_inside\<close>: no vehicle has a sample
  inside the cell, that is with its time in \<open>[t_start, t_end)\<close> and its wrapped position in
  \<open>[x_start, x_end)\<close>. \<open>no_selected_sample\<close>: no vehicle has a sample that the loop body
  selects for the cell (\<^verbatim>\<open>cell_positions\<close>, line 107), that is with its time in the margin
  window \<open>[t_start - dt, t_end + dt]\<close> of line 90 and its wrapped position in
  \<open>[x_start, x_end)\<close>.
\<close>

definition no_sample_inside ::
  "real \<Rightarrow> real \<Rightarrow> real \<Rightarrow> real \<Rightarrow> real \<Rightarrow> trajectories \<Rightarrow> bool" where
  "no_sample_inside total_length t_start t_end x_start x_end tr =
     list_all (\<lambda>p. list_all (\<lambda>(t, q). \<not> (t_start \<le> t \<and> t < t_end
                                   \<and> x_start \<le> wrap q total_length \<and> wrap q total_length < x_end))
                     (zip (time (snd p)) (pos (snd p)))) tr"

definition no_selected_sample ::
  "real \<Rightarrow> real \<Rightarrow> real \<Rightarrow> real \<Rightarrow> real \<Rightarrow> real \<Rightarrow> trajectories \<Rightarrow> bool" where
  "no_selected_sample dt total_length t_start t_end x_start x_end tr =
     list_all (\<lambda>p. masked (window_positions dt total_length t_start t_end (snd p))
                       (cell_mask x_start x_end
                          (window_positions dt total_length t_start t_end (snd p))) = []) tr"

text \<open>
  The concrete scenario: one vehicle entering at time 0 at position 0, moving at 10 m/s,
  sampled every second from 0 to 100 (the simulator's time step), so that sample \<open>i\<close> is at
  time \<open>i\<close> and position \<open>10 i\<close>.
\<close>

definition scenario_vehicle :: vehicle_data where
  "scenario_vehicle =
     \<lparr>time = map real [0..<101], pos = map (\<lambda>i. 10 * real i) [0..<101],
      speed = replicate 101 10, lane = replicate 101 ''a_0'', vtype = None\<rparr>"

text \<open>The observations of a trace in file order, each with the time of its timestep.\<close>

definition flatten :: "timestep list \<Rightarrow> (real \<times> observation) list" where
  "flatten stream = concat (map (\<lambda>(t, vehicles). map (Pair t) vehicles) stream)"

definition observations_of :: "string \<Rightarrow> timestep list \<Rightarrow> (real \<times> observation) list" where
  "observations_of k stream = filter (\<lambda>p. veh_id (snd p) = k) (flatten stream)"

text \<open>
  What the first loop appends for one vehicle, as a loop over that vehicle's
  observations alone.
\<close>

definition first_pass :: "observation list \<Rightarrow> real list \<Rightarrow> real list" where
  "first_pass obs previous =
     fold (\<lambda>ob ps. ps @ [continuous_pos ps (obs_lane ob) (raw_pos ob)]) obs previous"

text \<open>
  The second loop from index \<open>i\<close> on, on the part of the array from \<open>i\<close> on; \<open>prev\<close> is
  \<^verbatim>\<open>positions[i-1]\<close>.
\<close>

fun shift_laps :: "real \<Rightarrow> real list \<Rightarrow> real list" where
  "shift_laps prev [] = []"
| "shift_laps prev (q # qs) =
     (if q < prev - corridor_length / 2
      then (q + corridor_length) # shift_laps (q + corridor_length) (map (\<lambda>p. p + corridor_length) qs)
      else q # shift_laps q qs)"

text \<open>
  A vehicle's true (unwrapped) position \<open>y\<close> is on lap \<open>lap y\<close>, and an observation reports it
  on the corridor when the position the code derives from lane and raw position (lines
  23-27: \<^verbatim>\<open>main_circle_length + raw_pos\<close> on \<^verbatim>\<open>b_0\<close>, \<^verbatim>\<open>raw_pos\<close> elsewhere) is \<open>y\<close> modulo the
  corridor length. \<open>small_steps y ys\<close>: from \<open>y\<close> on, the vehicle never moves backwards and
  advances by less than half the corridor between consecutive samples.
\<close>

definition lap :: "real \<Rightarrow> int" where
  "lap y = \<lfloor>y / corridor_length\<rfloor>"

definition corridor_pos :: "observation \<Rightarrow> real" where
  "corridor_pos ob =
     (if obs_lane ob = ''b_0'' then main_circle_length + raw_pos ob else raw_pos ob)"

definition reports :: "real \<Rightarrow> observation \<Rightarrow> bool" where
  "reports y ob = (corridor_pos ob = wrap y corridor_length)"

fun small_steps :: "real \<Rightarrow> real list \<Rightarrow> bool" where
  "small_steps y [] = True"
| "small_steps y (y' # ys) = (y \<le> y' \<and> y' < y + corridor_length / 2 \<and> small_steps y' ys)"

text \<open>What the first loop stores for a vehicle at the true position \<open>y\<close> (shown below).\<close>

definition stored_pos :: "real \<Rightarrow> real" where
  "stored_pos y =
     wrap y corridor_length + (if y \<ge> corridor_length then corridor_length else 0)"

text \<open>
  The corridor geometry: the edge \<^verbatim>\<open>a_0\<close> of length \<open>main_circle_length\<close> followed by the
  connector \<^verbatim>\<open>b_0\<close>. \<open>ring_observation\<close> is what the simulator reports for a vehicle at the
  true position \<open>y\<close>; \<open>ring_trace\<close> is the trace of one vehicle moving at the constant speed
  \<open>v\<close> from position 0 at time 0, sampled every \<open>step\<close> seconds, \<open>n\<close> times.
\<close>

definition ring_observation :: "string \<Rightarrow> real \<Rightarrow> string \<Rightarrow> real \<Rightarrow> observation" where
  "ring_observation k v ty y =
     (let c = wrap y corridor_length
      in \<lparr>veh_id = k,
          obs_lane = (if c < main_circle_length then ''a_0'' else ''b_0''),
          raw_pos = (if c < main_circle_length then c else c - main_circle_length),
          obs_speed = v, obs_type = ty\<rparr>)"

definition ring_trace :: "string \<Rightarrow> real \<Rightarrow> real \<Rightarrow> nat \<Rightarrow> timestep list" where
  "ring_trace k v step n =
     map (\<lambda>i. (real i * step, [ring_observation k v ''regular'' (v * (real i * step))])) [0..<n]"

text \<open>
  The vehicle of the concrete scenario (from position 0 at time 0 at 10 m/s) sampled at
  arbitrary times \<open>ts\<close>.
\<close>

definition sampled_vehicle :: "real list \<Rightarrow> vehicle_data" where
  "sampled_vehicle ts =
     \<lparr>time = ts, pos = map (\<lambda>t. 10 * t) ts, speed = map (\<lambda>t. 10) ts,
      lane = map (\<lambda>t. ''a_0'') ts, vtype = None\<rparr>"

section \<open>The aggregation on a store of objects\<close>

text \<open>
  The caller of \<^verbatim>\<open>calculate_macroscopic_quantities\<close> passes a reference: the table is a dict
  object, its values are dict objects, and their entries \<^verbatim>\<open>'time'\<close>, \<^verbatim>\<open>'pos'\<close> and \<^verbatim>\<open>'speed'\<close>
  refer to numpy arrays. What the call does to these objects is a question about the store,
  so lines 61-146 of \<^verbatim>\<open>edies_analysis.py\<close> are modelled here a second time, statement by
  statement, on an explicit store: a list of objects, a reference being an index into it.

  The operations of numpy and of Python are modelled by their effect on the store:
  \<^item> \<^verbatim>\<open>a[mask]\<close> with a boolean mask, \<^verbatim>\<open>a % c\<close>, \<^verbatim>\<open>np.concatenate\<close>, \<^verbatim>\<open>np.arange\<close>, \<^verbatim>\<open>np.zeros\<close>
    and \<^verbatim>\<open>np.zeros_like\<close> create a new array object and leave every other object as it is;
  \<^item> \<^verbatim>\<open>a[i, j] = v\<close> and \<^verbatim>\<open>a *= c\<close> write into the object that \<^verbatim>\<open>a\<close> refers to;
  \<^item> \<^verbatim>\<open>d[key]\<close> and \<^verbatim>\<open>d.items()\<close> read a dict object.

  The boolean arrays of the comparisons and the two interpolated times of \<^verbatim>\<open>np.interp\<close> are
  temporaries that are only read; they are values here. The slices \<^verbatim>\<open>t_bins[:-1]\<close> and
  \<^verbatim>\<open>x_bins[:-1]\<close> that the function returns are views of arrays it has created itself; they
  are returned as values.
\<close>

record vehicle_ref =
  time_ref :: nat
  pos_ref :: nat
  speed_ref :: nat
  lane_list :: "string list"
  type_tag :: "string option"

datatype obj =
  Arr "real list"
| Grid "real list list"
| Veh vehicle_ref
| Dict "(string \<times> nat) list"

type_synonym store = "obj list"

text \<open>
  Reading through a reference. A reference that is not allocated, or that leads to an
  object of another kind, reads as an empty array, grid or dict; in the stores of the
  theorem on the table (\<open>is_table\<close> below) the call meets no such reference.
\<close>

definition arr_at :: "store \<Rightarrow> nat \<Rightarrow> real list" where
  "arr_at h a = (if a < length h then (case h ! a of Arr xs \<Rightarrow> xs | _ \<Rightarrow> []) else [])"

definition grid_at :: "store \<Rightarrow> nat \<Rightarrow> real list list" where
  "grid_at h a = (if a < length h then (case h ! a of Grid g \<Rightarrow> g | _ \<Rightarrow> []) else [])"

definition veh_at :: "store \<Rightarrow> nat \<Rightarrow> vehicle_ref" where
  "veh_at h a =
     (if a < length h
      then (case h ! a of Veh r \<Rightarrow> r
            | _ \<Rightarrow> \<lparr>time_ref = a, pos_ref = a, speed_ref = a, lane_list = [], type_tag = None\<rparr>)
      else \<lparr>time_ref = a, pos_ref = a, speed_ref = a, lane_list = [], type_tag = None\<rparr>)"

definition dict_at :: "store \<Rightarrow> nat \<Rightarrow> (string \<times> nat) list" where
  "dict_at h a = (if a < length h then (case h ! a of Dict ks \<Rightarrow> ks | _ \<Rightarrow> []) else [])"

text \<open>A new object: its reference is the next free index.\<close>

definition alloc :: "obj \<Rightarrow> store \<Rightarrow> nat \<times> store" where
  "alloc ob h = (length h, h @ [ob])"

text \<open>\<^verbatim>\<open>a[mask]\<close> and \<^verbatim>\<open>a % c\<close>: the result is a new array.\<close>

definition np_index :: "nat \<Rightarrow> bool list \<Rightarrow> store \<Rightarrow> (error + nat) \<times> store" where
  "np_index a m h =
     (case bool_index (arr_at h a) m of
        Inl e \<Rightarrow> (Inl e, h)
      | Inr xs \<Rightarrow> (case alloc (Arr xs) h of (b, h') \<Rightarrow> (Inr b, h')))"

definition np_remainder :: "nat \<Rightarrow> real \<Rightarrow> store \<Rightarrow> nat \<times> store" where
  "np_remainder a c h = alloc (Arr (map (\<lambda>p. wrap p c) (arr_at h a))) h"

text \<open>\<^verbatim>\<open>a[i, j] = v\<close> and \<^verbatim>\<open>a *= c\<close>: the object that \<^verbatim>\<open>a\<close> refers to is overwritten.\<close>

definition np_setitem :: "nat \<Rightarrow> nat \<Rightarrow> nat \<Rightarrow> real \<Rightarrow> store \<Rightarrow> store" where
  "np_setitem a i j v h = h[a := Grid (set2d (grid_at h a) i j v)]"

definition np_imul :: "nat \<Rightarrow> real \<Rightarrow> store \<Rightarrow> store" where
  "np_imul a c h = h[a := Grid (scale c (grid_at h a))]"

text \<open>\<^verbatim>\<open>np.zeros_like(a)\<close>.\<close>

definition zeros_like :: "real list list \<Rightarrow> real list list" where
  "zeros_like a = map (map (\<lambda>v. 0)) a"

text \<open>
  Lines 89-124, the body of the loop over the vehicles; \<open>data\<close> is the reference to the
  dict of the vehicle.
\<close>

definition process_vehicle_st ::
  "real \<Rightarrow> real \<Rightarrow> real \<Rightarrow> real \<Rightarrow> real \<Rightarrow> real \<Rightarrow> nat \<Rightarrow> cell_acc \<Rightarrow> store
     \<Rightarrow> (error + cell_acc) \<times> store" where
  "process_vehicle_st dt total_length t_start t_end x_start x_end data acc h =
     (let time_mask = map (\<lambda>t. t \<ge> t_start - dt \<and> t \<le> t_end + dt)
                          (arr_at h (time_ref (veh_at h data))) in
      if \<not> np_any time_mask then (Inr acc, h)
      else
        case np_index (time_ref (veh_at h data)) time_mask h of
          (Inl e, h1) \<Rightarrow> (Inl e, h1)
        | (Inr times', h1) \<Rightarrow>
        case np_index (pos_ref (veh_at h1 data)) time_mask h1 of
          (Inl e, h2) \<Rightarrow> (Inl e, h2)
        | (Inr ps, h2) \<Rightarrow>
        case np_remainder ps total_length h2 of (positions, h3) \<Rightarrow>
        case np_index (speed_ref (veh_at h3 data)) time_mask h3 of
          (Inl e, h4) \<Rightarrow> (Inl e, h4)
        | (Inr speeds, h4) \<Rightarrow>
        if length (arr_at h4 times') > 1 then
          let t_interp = [interp x_start (arr_at h4 positions) (arr_at h4 times'),
                          interp x_end (arr_at h4 positions) (arr_at h4 times')];
              mask = map (\<lambda>p. p \<ge> x_start \<and> p < x_end) (arr_at h4 positions)
          in
            case np_index times' mask h4 of
              (Inl e, h5) \<Rightarrow> (Inl e, h5)
            | (Inr cell_times, h5) \<Rightarrow>
            case np_index positions mask h5 of
              (Inl e, h6) \<Rightarrow> (Inl e, h6)
            | (Inr cell_positions, h6) \<Rightarrow>
            if length (arr_at h6 cell_times) > 0 then
              let time_in_cell = min t_end (last (arr_at h6 cell_times))
                                   - max t_start (hd (arr_at h6 cell_times));
                  acc1 =
                    (if time_in_cell > 0 then
                       let acc' = acc\<lparr>total_time_spent := total_time_spent acc + time_in_cell\<rparr>;
                           pos_start = max x_start (hd (arr_at h6 cell_positions));
                           pos_end = min x_end (last (arr_at h6 cell_positions));
                           distance = pos_end - pos_start
                       in if distance > 0
                          then acc'\<lparr>total_distance := total_distance acc' + distance\<rparr>
                          else acc'
                     else acc)
              in (Inr (if \<not> np_all (map isnan t_interp)
                       then acc1\<lparr>vehicles_crossed := vehicles_crossed acc1 + 1\<rparr>
                       else acc1), h6)
            else (Inr acc, h6)
        else (Inr acc, h4))"

text \<open>
  \<^verbatim>\<open>for veh_id, data in trajectories.items()\<close>, over the items that the dict has when the
  loop starts.
\<close>

fun vehicles_loop_st ::
  "real \<Rightarrow> real \<Rightarrow> real \<Rightarrow> real \<Rightarrow> real \<Rightarrow> real \<Rightarrow> (string \<times> nat) list \<Rightarrow> cell_acc \<Rightarrow> store
     \<Rightarrow> (error + cell_acc) \<times> store" where
  "vehicles_loop_st dt total_length t_start t_end x_start x_end [] acc h = (Inr acc, h)"
| "vehicles_loop_st dt total_length t_start t_end x_start x_end ((vid, data) # rest) acc h =
     (case process_vehicle_st dt total_length t_start t_end x_start x_end data acc h of
        (Inl e, h') \<Rightarrow> (Inl e, h')
      | (Inr acc', h') \<Rightarrow> vehicles_loop_st dt total_length t_start t_end x_start x_end rest acc' h')"

text \<open>Statements on the store, and their sequence and loop.\<close>

type_synonym stmt_st = "store \<Rightarrow> error option \<times> store"

definition seq_st :: "stmt_st \<Rightarrow> stmt_st \<Rightarrow> stmt_st" where
  "seq_st f g h = (case f h of (Some e, h') \<Rightarrow> (Some e, h') | (None, h') \<Rightarrow> g h')"

definition skip_st :: stmt_st where
  "skip_st h = (None, h)"

primrec for_loop_st :: "(nat \<Rightarrow> stmt_st) \<Rightarrow> nat list \<Rightarrow> stmt_st" where
  "for_loop_st body [] h = (None, h)"
| "for_loop_st body (i # is) h =
     (case body i h of (Some e, h') \<Rightarrow> (Some e, h') | (None, h') \<Rightarrow> for_loop_st body is h')"

definition assign_st :: "nat \<Rightarrow> nat \<Rightarrow> nat \<Rightarrow> error + real \<Rightarrow> stmt_st" where
  "assign_st a t_idx x_idx r h =
     (case r of Inl e \<Rightarrow> (Some e, h) | Inr v \<Rightarrow> (None, np_setitem a t_idx x_idx v h))"

text \<open>
  Lines 126-139; \<open>density_a\<close>, \<open>flow_a\<close> and \<open>speed_a\<close> are the references held by the local
  variables \<^verbatim>\<open>density\<close>, \<^verbatim>\<open>flow\<close> and \<^verbatim>\<open>speed\<close>.
\<close>

definition finish_cell_st ::
  "real \<Rightarrow> real \<Rightarrow> nat \<Rightarrow> nat \<Rightarrow> cell_acc \<Rightarrow> nat \<Rightarrow> nat \<Rightarrow> nat \<Rightarrow> stmt_st" where
  "finish_cell_st dx dt t_idx x_idx acc density_a flow_a speed_a =
     (let area = dx * dt in
      seq_st (if area > 0
              then assign_st density_a t_idx x_idx (py_div (total_time_spent acc) area)
              else skip_st)
     (seq_st (if dt > 0
              then assign_st flow_a t_idx x_idx (py_div (real (vehicles_crossed acc)) dt)
              else skip_st)
             (if total_time_spent acc > 0
              then assign_st speed_a t_idx x_idx (py_div (total_distance acc) (total_time_spent acc))
              else skip_st)))"

text \<open>
  Lines 83-139: the body of the loop over \<^verbatim>\<open>x_idx\<close> once the bounds of the cell have been
  read.
\<close>

definition process_cell_st ::
  "nat \<Rightarrow> real \<Rightarrow> real \<Rightarrow> real \<Rightarrow> real \<Rightarrow> real \<Rightarrow> real \<Rightarrow> real \<Rightarrow> nat \<Rightarrow> nat \<Rightarrow> nat \<Rightarrow> nat \<Rightarrow> nat
     \<Rightarrow> stmt_st" where
  "process_cell_st trajectories dx dt total_length t_start t_end x_start x_end
       density_a flow_a speed_a t_idx x_idx h =
     (case vehicles_loop_st dt total_length t_start t_end x_start x_end
             (dict_at h trajectories) cell_acc0 h of
        (Inl e, h') \<Rightarrow> (Some e, h')
      | (Inr acc, h') \<Rightarrow> finish_cell_st dx dt t_idx x_idx acc density_a flow_a speed_a h')"

text \<open>
  Lines 77-139: the two loops over the cells. Each \<^verbatim>\<open>range\<close> is computed when its loop
  starts, and the bounds of a cell are read from the arrays of the bin edges.
\<close>

definition cell_loops_st ::
  "nat \<Rightarrow> real \<Rightarrow> real \<Rightarrow> real \<Rightarrow> nat \<Rightarrow> nat \<Rightarrow> nat \<Rightarrow> nat \<Rightarrow> nat \<Rightarrow> stmt_st" where
  "cell_loops_st trajectories dx dt total_length t_bins x_bins density_a flow_a speed_a h =
     for_loop_st (\<lambda>t_idx h1.
       let t_start = arr_at h1 t_bins ! t_idx; t_end = arr_at h1 t_bins ! (t_idx + 1) in
       for_loop_st (\<lambda>x_idx h2.
         let x_start = arr_at h2 x_bins ! x_idx; x_end = arr_at h2 x_bins ! (x_idx + 1) in
         process_cell_st trajectories dx dt total_length t_start t_end x_start x_end
           density_a flow_a speed_a t_idx x_idx h2)
         [0..<length (arr_at h1 x_bins) - 1] h1)
       [0..<length (arr_at h t_bins) - 1] h"

text \<open>
  Lines 61-146. \<^verbatim>\<open>np.concatenate\<close> raises on an empty list of arrays, \<^verbatim>\<open>np.min\<close> on an
  empty array; both are \<^verbatim>\<open>ValueError\<close>. The result is the exception, or the references to the
  three arrays with the two returned slices, and the store as the call leaves it.
\<close>

definition calculate_macroscopic_quantities_st ::
  "nat \<Rightarrow> real \<Rightarrow> real \<Rightarrow> real \<Rightarrow> store
     \<Rightarrow> (error + nat \<times> nat \<times> nat \<times> real list \<times> real list) \<times> store" where
  "calculate_macroscopic_quantities_st trajectories dx dt total_length h =
     (let arrays = map (\<lambda>(vid, data). arr_at h (time_ref (veh_at h data)))
                       (dict_at h trajectories) in
      if arrays = [] then (Inl EmptySequence, h)
      else
        case alloc (Arr (concat arrays)) h of (all_times, h1) \<Rightarrow>
        if arr_at h1 all_times = [] then (Inl EmptySequence, h1)
        else
        let t_min = np_min (arr_at h1 all_times); t_max = np_max (arr_at h1 all_times) in
        case arange 0 (total_length + dx) dx of Inl e \<Rightarrow> (Inl e, h1) | Inr xs \<Rightarrow>
        case alloc (Arr xs) h1 of (x_bins, h2) \<Rightarrow>
        case arange t_min (t_max + dt) dt of Inl e \<Rightarrow> (Inl e, h2) | Inr ts \<Rightarrow>
        case alloc (Arr ts) h2 of (t_bins, h3) \<Rightarrow>
        case zeros (int (length (arr_at h3 t_bins)) - 1) (int (length (arr_at h3 x_bins)) - 1) of
          Inl e \<Rightarrow> (Inl e, h3)
        | Inr z \<Rightarrow>
        case alloc (Grid z) h3 of (density_a, h4) \<Rightarrow>
        case alloc (Grid (zeros_like (grid_at h4 density_a))) h4 of (flow_a, h5) \<Rightarrow>
        case alloc (Grid (zeros_like (grid_at h5 density_a))) h5 of (speed_a, h6) \<Rightarrow>
        case cell_loops_st trajectories dx dt total_length t_bins x_bins density_a flow_a speed_a h6 of
          (Some e, h7) \<Rightarrow> (Inl e, h7)
        | (None, h7) \<Rightarrow>
            let h8 = np_imul density_a 1000 h7;
                h9 = np_imul flow_a 3600 h8;
                h10 = np_imul speed_a 3.6 h9
            in (Inr (density_a, flow_a, speed_a, butlast (arr_at h10 t_bins), butlast (arr_at h10 x_bins)),
                h10))"

text \<open>
  The table that a reference denotes in a store, and the stores in which it denotes one:
  the reference and the references it leads to are allocated, and lead to objects of the
  right kind.
\<close>

definition load_vehicle :: "store \<Rightarrow> nat \<Rightarrow> vehicle_data" where
  "load_vehicle h a =
     \<lparr>time = arr_at h (time_ref (veh_at h a)), pos = arr_at h (pos_ref (veh_at h a)),
      speed = arr_at h (speed_ref (veh_at h a)), lane = lane_list (veh_at h a),
      vtype = type_tag (veh_at h a)\<rparr>"

definition load :: "store \<Rightarrow> nat \<Rightarrow> trajectories" where
  "load h trajectories = map (\<lambda>(vid, data). (vid, load_vehicle h data)) (dict_at h trajectories)"

definition is_array :: "store \<Rightarrow> nat \<Rightarrow> bool" where
  "is_array h a = (a < length h \<and> (case h ! a of Arr xs \<Rightarrow> True | _ \<Rightarrow> False))"

definition is_vehicle :: "store \<Rightarrow> nat \<Rightarrow> bool" where
  "is_vehicle h a =
     (a < length h
      \<and> (case h ! a of
           Veh r \<Rightarrow> is_array h (time_ref r) \<and> is_array h (pos_ref r) \<and> is_array h (speed_ref r)
         | _ \<Rightarrow> False))"

definition is_table :: "store \<Rightarrow> nat \<Rightarrow> bool" where
  "is_table h a =
     (a < length h
      \<and> (case h ! a of Dict ks \<Rightarrow> list_all (\<lambda>(vid, data). is_vehicle h data) ks | _ \<Rightarrow> False))"

text \<open>What the caller receives: the exception, or the contents of the returned arrays.\<close>

definition outcome ::
  "(error + nat \<times> nat \<times> nat \<times> real list \<times> real list) \<times> store \<Rightarrow> error + grids" where
  "outcome r =
     (case r of
        (Inl e, h) \<Rightarrow> Inl e
      | (Inr (density_a, flow_a, speed_a, tb, xb), h) \<Rightarrow>
          Inr (grid_at h density_a, grid_at h flow_a, grid_at h speed_a, tb, xb))"

text \<open>
  A store with one vehicle sampled at times 0 and 1 at positions 12 and 15; the table is
  the object 4.
\<close>

definition small_store :: store where
  "small_store =
     [Arr [0, 1], Arr [12, 15], Arr [0, 0],
      Veh \<lparr>time_ref = 0, pos_ref = 1, speed_ref = 2, lane_list = [''a_0'', ''a_0''], type_tag = None\<rparr>,
      Dict [(''veh0'', 3)]]"

text \<open>The store \<open>h'\<close> has every object of \<open>h\<close> unchanged; it may have more objects.\<close>

definition keeps :: "store \<Rightarrow> store \<Rightarrow> bool" where
  "keeps h h' = (length h \<le> length h' \<and> take (length h) h' = h)"
text \<open>
  The state of the value model that a store represents during the loops: the store has the
  objects of the store \<open>h0\<close> of the call unchanged, the table of \<open>h0\<close> is the table of the
  state, and the five arrays that the call has created (distinct objects, not in \<open>h0\<close>) hold
  the bin edges and the three grids of the state.
\<close>

definition represents ::
  "store \<Rightarrow> nat \<Rightarrow> nat \<Rightarrow> nat \<Rightarrow> nat \<Rightarrow> nat \<Rightarrow> nat \<Rightarrow> real list \<Rightarrow> real list \<Rightarrow> store \<Rightarrow> agg_state
     \<Rightarrow> bool" where
  "represents h0 trajectories t_bins x_bins density_a flow_a speed_a tb xb h s =
     (keeps h0 h \<and> is_table h0 trajectories \<and> table s = load h0 trajectories
      \<and> distinct [t_bins, x_bins, density_a, flow_a, speed_a]
      \<and> list_all (\<lambda>a. length h0 \<le> a \<and> a < length h) [t_bins, x_bins, density_a, flow_a, speed_a]
      \<and> h ! t_bins = Arr tb \<and> h ! x_bins = Arr xb
      \<and> h ! density_a = Grid (density s) \<and> h ! flow_a = Grid (flow s)
      \<and> h ! speed_a = Grid (speed_grid s))"

section \<open>Properties of the cell aggregation\<close>

lemmas eval_defs = process_vehicle_def bool_index_def masked_def wrap_def interp_def isnan_def
  np_any_def np_all_def cell_acc0_def Let_def window_times_def window_positions_def time_mask_def
  cell_mask_def parallel_arrays_def off_range_def time_in_cell_def distance_in_cell_def

lemma masked_nonempty_any: "masked xs m \<noteq> [] \<Longrightarrow> np_any m"
  unfolding masked_def np_any_def
  by (induction xs arbitrary: m) (auto simp: zip_Cons1 split: list.splits if_splits)

lemma process_vehicle_window:
  assumes pa: "parallel_arrays data"
    and two: "length (window_times dt t_start t_end data) > 1"
  shows "process_vehicle dt total_length t_start t_end x_start x_end data acc =
     (let times' = window_times dt t_start t_end data;
          positions = window_positions dt total_length t_start t_end data;
          mask = cell_mask x_start x_end positions;
          cell_times = masked times' mask;
          cell_positions = masked positions mask
      in if cell_times = [] then Inr acc
         else
           let acc1 =
             (if time_in_cell t_start t_end cell_times > 0
              then acc\<lparr>total_time_spent := total_time_spent acc + time_in_cell t_start t_end cell_times,
                       total_distance := total_distance acc +
                         (if distance_in_cell x_start x_end cell_positions > 0
                          then distance_in_cell x_start x_end cell_positions else 0)\<rparr>
              else acc)
           in Inr (acc1\<lparr>vehicles_crossed := vehicles_crossed acc1 +
                 (if isnan (interp x_start positions times') \<and> isnan (interp x_end positions times')
                  then 0 else 1)\<rparr>))"
proof -
  have any: "np_any (time_mask dt t_start t_end data)"
  proof (rule masked_nonempty_any)
    show "masked (time data) (time_mask dt t_start t_end data) \<noteq> []"
      using two by (auto simp: window_times_def)
  qed
  have len: "length (time_mask dt t_start t_end data) = length (time data)"
    by (simp add: time_mask_def)
  show ?thesis
    using any two pa len
    unfolding process_vehicle_def time_mask_def[symmetric]
    by (simp add: bool_index_def parallel_arrays_def Let_def window_times_def[symmetric]
        window_positions_def[symmetric] cell_mask_def[symmetric] time_in_cell_def distance_in_cell_def
        np_all_def)
qed

lemma isnan_interp: "isnan (interp x xp fp) = off_range x xp"
  by (auto simp: isnan_def interp_def off_range_def Let_def)

lemma length_masked: "length (masked xs m) = length (filter (\<lambda>b. b) (take (length xs) m))"
proof (induction xs arbitrary: m)
  case Nil
  show ?case by (simp add: masked_def)
next
  case (Cons x xs)
  show ?case
  proof (cases m)
    case Nil
    then show ?thesis by (simp add: masked_def)
  next
    case (Cons b m')
    with Cons.IH[of m'] show ?thesis by (simp add: masked_def)
  qed
qed

lemma length_masked_cell:
  assumes "length xs = length ys"
  shows "(masked xs m = []) = (masked ys m = [])"
proof -
  have "length (masked xs m) = length (masked ys m)"
    using assms by (simp add: length_masked)
  then show ?thesis by (metis length_0_conv)
qed

lemma window_lengths:
  "parallel_arrays data \<Longrightarrow>
   length (window_positions dt total_length t_start t_end data) = length (window_times dt t_start t_end data)"
  by (simp add: window_positions_def window_times_def parallel_arrays_def length_masked time_mask_def)



text \<open>
  C1, as the code has it. For every cell (of a corridor of non-zero length) and every
  vehicle with parallel arrays whose margin-restricted window has at least two samples, the
  loop body adds exactly one to
  \<^verbatim>\<open>vehicles_crossed\<close> when at least one wrapped position of the window lies in
  \<open>[x_start, x_end)\<close> and at least one of the two boundaries \<open>x_start\<close>, \<open>x_end\<close> lies
  on the sampled range (between the first and the last wrapped position of the window, where
  \<^verbatim>\<open>np.interp\<close> is not NaN), and adds nothing otherwise: the test is
  \<^verbatim>\<open>not np.isnan(t_interp).all()\<close>, inside \<^verbatim>\<open>if len(cell_times) > 0\<close>.
\<close>

theorem crossing_count_increment:
  assumes "parallel_arrays data"
    and "length (window_times dt t_start t_end data) > 1"
    and "total_length \<noteq> 0"
  shows "\<exists>acc'. process_vehicle dt total_length t_start t_end x_start x_end data acc = Inr acc' \<and>
     vehicles_crossed acc' = vehicles_crossed acc +
       (if masked (window_positions dt total_length t_start t_end data)
             (cell_mask x_start x_end (window_positions dt total_length t_start t_end data)) \<noteq> []
           \<and> \<not> (off_range x_start (window_positions dt total_length t_start t_end data)
                \<and> off_range x_end (window_positions dt total_length t_start t_end data))
        then 1 else 0)"
proof -
  have "(masked (window_times dt t_start t_end data)
          (cell_mask x_start x_end (window_positions dt total_length t_start t_end data)) = [])
      = (masked (window_positions dt total_length t_start t_end data)
          (cell_mask x_start x_end (window_positions dt total_length t_start t_end data)) = [])"
    by (rule length_masked_cell) (simp add: window_lengths assms(1))
  then show ?thesis
    by (simp add: process_vehicle_window[OF assms(1,2)] Let_def isnan_interp)
qed

text \<open>C1, witness: a vehicle sampled at positions 10 and 150, cell \<open>[0, 100)\<close>.\<close>

theorem crossing_count_increment_witness:
  "parallel_arrays (two_samples 0 10 1 150)
   \<and> 1 < length (window_times 10 0 10 (two_samples 0 10 1 150))
   \<and> (1000::real) \<noteq> 0
   \<and> (\<exists>acc'. process_vehicle 10 1000 0 10 0 100 (two_samples 0 10 1 150) cell_acc0 = Inr acc'
          \<and> vehicles_crossed acc' = 1)"
proof -
  have h1: "parallel_arrays (two_samples 0 10 1 150)"
    by (simp add: parallel_arrays_def two_samples_def)
  have h2: "1 < length (window_times 10 0 10 (two_samples 0 10 1 150))"
    by (simp add: window_times_def time_mask_def masked_def two_samples_def)
  have "masked (window_positions 10 1000 0 10 (two_samples 0 10 1 150))
          (cell_mask 0 100 (window_positions 10 1000 0 10 (two_samples 0 10 1 150))) \<noteq> []
      \<and> \<not> off_range 100 (window_positions 10 1000 0 10 (two_samples 0 10 1 150))"
    by (simp add: eval_defs two_samples_def)
  with crossing_count_increment[where total_length = 1000 and x_start = 0 and x_end = 100
      and acc = cell_acc0, OF h1 h2] h1 h2
  show ?thesis by (simp add: cell_acc0_def)
qed

text \<open>
  C1 as stated fails. With samples at positions 10 and 150 the cell \<open>[0, 100)\<close> counts the
  vehicle although the time interpolated at 0 is NaN; with samples at positions 0 and 250
  the cell \<open>[100, 200)\<close> does not count it although both interpolated times are defined
  (no sample lies in the cell).
\<close>

theorem crossing_count_counterexample:
  "1 < length (window_times 10 0 10 (two_samples 0 10 1 150))
   \<and> process_vehicle 10 1000 0 10 0 100 (two_samples 0 10 1 150) cell_acc0
       = Inr (cell_acc0\<lparr>vehicles_crossed := 1\<rparr>)
   \<and> isnan (interp 0 (window_positions 10 1000 0 10 (two_samples 0 10 1 150))
                       (window_times 10 0 10 (two_samples 0 10 1 150)))
   \<and> 1 < length (window_times 10 0 10 (two_samples 0 0 1 250))
   \<and> process_vehicle 10 1000 0 10 100 200 (two_samples 0 0 1 250) cell_acc0 = Inr cell_acc0
   \<and> \<not> isnan (interp 100 (window_positions 10 1000 0 10 (two_samples 0 0 1 250))
                         (window_times 10 0 10 (two_samples 0 0 1 250)))
   \<and> \<not> isnan (interp 200 (window_positions 10 1000 0 10 (two_samples 0 0 1 250))
                         (window_times 10 0 10 (two_samples 0 0 1 250)))"
  by (simp add: eval_defs two_samples_def)

text \<open>
  C4, as the code has it. For every cell (of a corridor of non-zero length) and every
  vehicle with parallel arrays whose margin-restricted window has at least two samples and at least one wrapped position in
  \<open>[x_start, x_end)\<close>, the quantity \<open>min x_end (last in-cell position) -
  max x_start (first in-cell position)\<close> is added to \<^verbatim>\<open>total_distance\<close> when both it and
  \<^verbatim>\<open>time_in_cell\<close> are positive, and nothing is added otherwise: the addition is nested
  in \<^verbatim>\<open>if time_in_cell > 0\<close>.
\<close>

theorem distance_added:
  assumes "parallel_arrays data"
    and "length (window_times dt t_start t_end data) > 1"
    and "masked (window_positions dt total_length t_start t_end data)
             (cell_mask x_start x_end (window_positions dt total_length t_start t_end data)) \<noteq> []"
    and "total_length \<noteq> 0"
  shows "\<exists>acc'. process_vehicle dt total_length t_start t_end x_start x_end data acc = Inr acc' \<and>
     total_distance acc' = total_distance acc +
       (if time_in_cell t_start t_end (masked (window_times dt t_start t_end data)
             (cell_mask x_start x_end (window_positions dt total_length t_start t_end data))) > 0
          \<and> distance_in_cell x_start x_end (masked (window_positions dt total_length t_start t_end data)
             (cell_mask x_start x_end (window_positions dt total_length t_start t_end data))) > 0
        then distance_in_cell x_start x_end (masked (window_positions dt total_length t_start t_end data)
             (cell_mask x_start x_end (window_positions dt total_length t_start t_end data)))
        else 0)"
proof -
  have "(masked (window_times dt t_start t_end data)
          (cell_mask x_start x_end (window_positions dt total_length t_start t_end data)) = [])
      = (masked (window_positions dt total_length t_start t_end data)
          (cell_mask x_start x_end (window_positions dt total_length t_start t_end data)) = [])"
    by (rule length_masked_cell) (simp add: window_lengths assms(1))
  then show ?thesis
    using assms(3) by (simp add: process_vehicle_window[OF assms(1,2)] Let_def)
qed


text \<open>C4, witness: samples at positions 10 and 20 at times 0 and 1, cell \<open>[0, 10) \<times> [0, 100)\<close>.\<close>

theorem distance_added_witness:
  "parallel_arrays (two_samples 0 10 1 20)
   \<and> 1 < length (window_times 10 0 10 (two_samples 0 10 1 20))
   \<and> (1000::real) \<noteq> 0
   \<and> masked (window_positions 10 1000 0 10 (two_samples 0 10 1 20))
         (cell_mask 0 100 (window_positions 10 1000 0 10 (two_samples 0 10 1 20))) \<noteq> []
   \<and> (\<exists>acc'. process_vehicle 10 1000 0 10 0 100 (two_samples 0 10 1 20) cell_acc0 = Inr acc'
          \<and> total_distance acc' = 10)"
proof -
  have h1: "parallel_arrays (two_samples 0 10 1 20)"
    by (simp add: parallel_arrays_def two_samples_def)
  have h2: "1 < length (window_times 10 0 10 (two_samples 0 10 1 20))"
    by (simp add: window_times_def time_mask_def masked_def two_samples_def)
  have h3: "masked (window_positions 10 1000 0 10 (two_samples 0 10 1 20))
         (cell_mask 0 100 (window_positions 10 1000 0 10 (two_samples 0 10 1 20))) \<noteq> []"
    by (simp add: eval_defs two_samples_def)
  have "masked (window_positions 10 1000 0 10 (two_samples 0 10 1 20))
         (cell_mask 0 100 (window_positions 10 1000 0 10 (two_samples 0 10 1 20))) = [10, 20]
      \<and> masked (window_times 10 0 10 (two_samples 0 10 1 20))
         (cell_mask 0 100 (window_positions 10 1000 0 10 (two_samples 0 10 1 20))) = [0, 1]"
    by (simp add: eval_defs two_samples_def)
  with distance_added[where acc = cell_acc0, OF h1 h2 h3] h1 h2 h3
  show ?thesis by (simp add: cell_acc0_def time_in_cell_def distance_in_cell_def)
qed

text \<open>
  C4 as stated fails: a vehicle whose in-cell samples (positions 10 and 20) are at times 12
  and 14, after the time bin \<open>[0, 10)\<close> but inside its margin, has a positive distance 10
  and a negative \<^verbatim>\<open>time_in_cell\<close>; nothing is added.
\<close>

theorem distance_added_counterexample:
  "1 < length (window_times 10 0 10 late_samples)
   \<and> masked (window_positions 10 1000 0 10 late_samples)
         (cell_mask 0 100 (window_positions 10 1000 0 10 late_samples)) = [10, 20]
   \<and> distance_in_cell 0 100 [10, 20] = 10
   \<and> process_vehicle 10 1000 0 10 0 100 late_samples cell_acc0 = Inr cell_acc0
   \<and> total_distance cell_acc0 = 0"
  by (simp add: eval_defs late_samples_def)

section \<open>Empty input\<close>

lemma read_stream_no_vehicles: "read_stream add (map (\<lambda>t. (t, [])) ts) = []"
proof -
  have "fold (\<lambda>(t, vehicles). fold (add t) vehicles) (map (\<lambda>t. (t, [])) ts) acc = acc" for acc
    by (induction ts arbitrary: acc) auto
  then show ?thesis by (simp add: read_stream_def)
qed

text \<open>
  C6. A trace in which no vehicle is observed (any number of timesteps, none with a
  vehicle) is reconstructed to the empty table, by both scripts; on the empty table
  both aggregators raise instead of computing a grid: the time range is the minimum and
  maximum over all sample times, and \<^verbatim>\<open>np.concatenate\<close> (in the mixed script \<^verbatim>\<open>min\<close>) of
  an empty sequence raises \<^verbatim>\<open>ValueError\<close>. That exception is the insufficient-data failure
  of the specification; the scripts define no exception class of their own.
\<close>

theorem empty_input:
  "parse_fcd_file (map (\<lambda>t. (t, [])) ts) = []
   \<and> parse_fcd_file_mixed (map (\<lambda>t. (t, [])) ts) = []
   \<and> calculate_macroscopic_quantities [] dx dt total_length = (Inl EmptySequence, [])
   \<and> calculate_macroscopic_quantities_mixed [] dx dt total_length veh_type = (Inl EmptySequence, [])"
  by (simp add: parse_fcd_file_def parse_fcd_file_mixed_def read_stream_no_vehicles
      calculate_macroscopic_quantities_def calculate_macroscopic_quantities_mixed_def aggregate_def)

section \<open>Degenerate grid parameters\<close>












section \<open>The recorded speeds have no influence\<close>

lemma finish_cell_eq:
  "finish_cell dx dt t x acc s =
     (None, s\<lparr>density := (if dx * dt > 0
                           then set2d (density s) t x (total_time_spent acc / (dx * dt))
                           else density s),
               flow := (if dt > 0
                        then set2d (flow s) t x (real (vehicles_crossed acc) / dt)
                        else flow s),
               speed_grid := (if total_time_spent acc > 0
                              then set2d (speed_grid s) t x (total_distance acc / total_time_spent acc)
                              else speed_grid s)\<rparr>)"
  by (simp add: finish_cell_def seq_def skip_def assign_density_def assign_flow_def
      assign_speed_def py_div_def Let_def)

lemma process_vehicle_speed:
  assumes "differ_in_speed_only d d'"
  shows "process_vehicle dt total_length t_start t_end x_start x_end d acc
       = process_vehicle dt total_length t_start t_end x_start x_end d' acc"
proof -
  from assms have e: "time d = time d'" "pos d = pos d'" "length (speed d) = length (speed d')"
    by (simp_all add: differ_in_speed_only_def)
  have drop_speeds: "(case (if c then Inr (masked (speed d) m) else Inl MaskLength) of
            Inl e \<Rightarrow> Inl e | Inr speeds \<Rightarrow> X)
       = (case (if c then Inr (masked (speed d') m) else Inl MaskLength) of
            Inl e \<Rightarrow> Inl e | Inr speeds \<Rightarrow> X)"
    for c m and X :: "error + cell_acc"
    by simp
  show ?thesis
    unfolding process_vehicle_def bool_index_def Let_def e drop_speeds ..
qed

lemma vehicles_loop_speed:
  assumes "tables_differ_in_speed_only tr tr'"
  shows "vehicles_loop dt total_length t_start t_end x_start x_end tr acc
       = vehicles_loop dt total_length t_start t_end x_start x_end tr' acc"
  using assms unfolding tables_differ_in_speed_only_def
proof (induction tr tr' arbitrary: acc rule: list_all2_induct)
  case Nil
  show ?case by simp
next
  case (Cons p tr p' tr')
  obtain k d where p: "p = (k, d)" by (cases p)
  obtain k' d' where p': "p' = (k', d')" by (cases p')
  from Cons.hyps(1) p p' have "differ_in_speed_only d d'" by simp
  from process_vehicle_speed[OF this] Cons.IH show ?case
    by (simp add: p p' split: sum.splits)
qed

lemma vehicles_loop_mixed_speed:
  assumes "tables_differ_in_speed_only tr tr'"
  shows "vehicles_loop_mixed veh_type dt total_length t_start t_end x_start x_end tr acc
       = vehicles_loop_mixed veh_type dt total_length t_start t_end x_start x_end tr' acc"
  using assms unfolding tables_differ_in_speed_only_def
proof (induction tr tr' arbitrary: acc rule: list_all2_induct)
  case Nil
  show ?case by simp
next
  case (Cons p tr p' tr')
  obtain k d where p: "p = (k, d)" by (cases p)
  obtain k' d' where p': "p' = (k', d')" by (cases p')
  from Cons.hyps(1) p p' have dd: "differ_in_speed_only d d'" by simp
  then have "vtype d = vtype d'" by (simp add: differ_in_speed_only_def)
  with process_vehicle_speed[OF dd] Cons.IH show ?case
    by (auto simp: p p' split: sum.splits)
qed

lemma all_times_speed:
  assumes "tables_differ_in_speed_only tr tr'"
  shows "concat (map (\<lambda>(veh_id, data). time data) tr) = concat (map (\<lambda>(veh_id, data). time data) tr')"
    and "concat (map (\<lambda>(vid, data). time data)
           (filter (\<lambda>(vid, data). veh_type = None \<or> vtype data = veh_type) tr))
       = concat (map (\<lambda>(vid, data). time data)
           (filter (\<lambda>(vid, data). veh_type = None \<or> vtype data = veh_type) tr'))"
  using assms unfolding tables_differ_in_speed_only_def
  by (induction tr tr' rule: list_all2_induct)
     (auto simp: differ_in_speed_only_def split: prod.splits)

lemma for_loop_related:
  assumes step: "\<And>i s s'. same_grids s s' \<Longrightarrow>
      fst (body i s) = fst (body' i s') \<and> same_grids (snd (body i s)) (snd (body' i s'))"
    and "same_grids s s'"
  shows "fst (for_loop body is s) = fst (for_loop body' is s')
       \<and> same_grids (snd (for_loop body is s)) (snd (for_loop body' is s'))"
  using assms(2)
proof (induction "is" arbitrary: s s')
  case Nil
  then show ?case by simp
next
  case (Cons i "is")
  obtain r s1 where b: "body i s = (r, s1)" by (cases "body i s")
  obtain r' s1' where b': "body' i s' = (r', s1')" by (cases "body' i s'")
  from step[OF Cons.prems, of i] b b' have rr: "r = r'" and g: "same_grids s1 s1'" by simp_all
  from b rr have b2: "body i s = (r', s1)" by simp
  show ?case
  proof (cases r')
    case None
    with b2 b' Cons.IH[OF g] show ?thesis by simp
  next
    case (Some e)
    with b2 b' g show ?thesis by simp
  qed
qed

lemma process_cell_related:
  assumes veh: "\<And>tr tr'. tables_differ_in_speed_only tr tr' \<Longrightarrow> vehicles tr cell_acc0 = vehicles tr' cell_acc0"
    and g: "same_grids s s'"
  shows "fst (process_cell vehicles dx dt t x s) = fst (process_cell vehicles dx dt t x s')
       \<and> same_grids (snd (process_cell vehicles dx dt t x s)) (snd (process_cell vehicles dx dt t x s'))"
proof -
  from g have "vehicles (table s) cell_acc0 = vehicles (table s') cell_acc0"
    by (intro veh) (simp add: same_grids_def)
  with g show ?thesis
    by (cases "vehicles (table s') cell_acc0")
       (simp_all add: process_cell_def finish_cell_eq same_grids_def)
qed

lemma cell_loops_related:
  assumes veh: "\<And>a b c d tr tr'. tables_differ_in_speed_only tr tr' \<Longrightarrow>
      vehicles a b c d tr cell_acc0 = vehicles a b c d tr' cell_acc0"
    and g: "same_grids s s'"
  shows "fst (cell_loops vehicles dx dt t_bins x_bins s) = fst (cell_loops vehicles dx dt t_bins x_bins s')
       \<and> same_grids (snd (cell_loops vehicles dx dt t_bins x_bins s))
                    (snd (cell_loops vehicles dx dt t_bins x_bins s'))"
  unfolding cell_loops_def Let_def
proof (rule for_loop_related[OF _ g])
  fix i s s'
  assume g1: "same_grids s s'"
  show "fst (for_loop (\<lambda>x_idx. process_cell
              (vehicles (t_bins ! i) (t_bins ! (i + 1)) (x_bins ! x_idx) (x_bins ! (x_idx + 1)))
              dx dt i x_idx) [0..<length x_bins - 1] s)
      = fst (for_loop (\<lambda>x_idx. process_cell
              (vehicles (t_bins ! i) (t_bins ! (i + 1)) (x_bins ! x_idx) (x_bins ! (x_idx + 1)))
              dx dt i x_idx) [0..<length x_bins - 1] s')
      \<and> same_grids
          (snd (for_loop (\<lambda>x_idx. process_cell
              (vehicles (t_bins ! i) (t_bins ! (i + 1)) (x_bins ! x_idx) (x_bins ! (x_idx + 1)))
              dx dt i x_idx) [0..<length x_bins - 1] s))
          (snd (for_loop (\<lambda>x_idx. process_cell
              (vehicles (t_bins ! i) (t_bins ! (i + 1)) (x_bins ! x_idx) (x_bins ! (x_idx + 1)))
              dx dt i x_idx) [0..<length x_bins - 1] s'))"
  proof (rule for_loop_related[OF _ g1])
    fix j s s'
    assume "same_grids s s'"
    then show "fst (process_cell
              (vehicles (t_bins ! i) (t_bins ! (i + 1)) (x_bins ! j) (x_bins ! (j + 1))) dx dt i j s)
      = fst (process_cell
              (vehicles (t_bins ! i) (t_bins ! (i + 1)) (x_bins ! j) (x_bins ! (j + 1))) dx dt i j s')
      \<and> same_grids
          (snd (process_cell
              (vehicles (t_bins ! i) (t_bins ! (i + 1)) (x_bins ! j) (x_bins ! (j + 1))) dx dt i j s))
          (snd (process_cell
              (vehicles (t_bins ! i) (t_bins ! (i + 1)) (x_bins ! j) (x_bins ! (j + 1))) dx dt i j s'))"
      by (intro process_cell_related veh)
  qed
qed

lemma aggregate_related:
  assumes veh: "\<And>a b c d tr tr'. tables_differ_in_speed_only tr tr' \<Longrightarrow>
      vehicles a b c d tr cell_acc0 = vehicles a b c d tr' cell_acc0"
    and t: "tables_differ_in_speed_only tr tr'"
  shows "fst (aggregate vehicles all_times tr dx dt total_length)
       = fst (aggregate vehicles all_times tr' dx dt total_length)"
proof -
  have "fst (case cell_loops vehicles dx dt t_bins x_bins
                 \<lparr>table = tr, density = z, flow = z, speed_grid = z\<rparr> of
               (Some e, s) \<Rightarrow> (Inl e, table s)
             | (None, s) \<Rightarrow>
                 (Inr (scale 1000 (density s), scale 3600 (flow s), scale 3.6 (speed_grid s),
                       butlast t_bins, butlast x_bins), table s))
      = fst (case cell_loops vehicles dx dt t_bins x_bins
                 \<lparr>table = tr', density = z, flow = z, speed_grid = z\<rparr> of
               (Some e, s) \<Rightarrow> (Inl e, table s)
             | (None, s) \<Rightarrow>
                 (Inr (scale 1000 (density s), scale 3600 (flow s), scale 3.6 (speed_grid s),
                       butlast t_bins, butlast x_bins), table s))"
    for t_bins x_bins z
  proof -
    have g: "same_grids \<lparr>table = tr, density = z, flow = z, speed_grid = z\<rparr>
                        \<lparr>table = tr', density = z, flow = z, speed_grid = z\<rparr>"
      using t by (simp add: same_grids_def)
    obtain r s1 where c: "cell_loops vehicles dx dt t_bins x_bins
        \<lparr>table = tr, density = z, flow = z, speed_grid = z\<rparr> = (r, s1)"
      by (cases "cell_loops vehicles dx dt t_bins x_bins
        \<lparr>table = tr, density = z, flow = z, speed_grid = z\<rparr>")
    obtain r' s1' where c': "cell_loops vehicles dx dt t_bins x_bins
        \<lparr>table = tr', density = z, flow = z, speed_grid = z\<rparr> = (r', s1')"
      by (cases "cell_loops vehicles dx dt t_bins x_bins
        \<lparr>table = tr', density = z, flow = z, speed_grid = z\<rparr>")
    from cell_loops_related[where vehicles = vehicles and dx = dx and dt = dt
        and t_bins = t_bins and x_bins = x_bins
        and s = "\<lparr>table = tr, density = z, flow = z, speed_grid = z\<rparr>"
        and s' = "\<lparr>table = tr', density = z, flow = z, speed_grid = z\<rparr>", OF veh g] c c'
    have "r = r'" and "same_grids s1 s1'" by simp_all
    then show ?thesis
      by (cases r') (auto simp: c c' same_grids_def)
  qed
  then show ?thesis
    unfolding aggregate_def Let_def
    by (simp split: sum.splits)
qed

text \<open>
  C10. For every two tables that are equal except in their per-sample speed values and
  for all grid parameters, both aggregators give the same result on the two tables: the
  same density, flow and speed arrays and the same bin-start vectors, or the same
  exception. (\<^verbatim>\<open>speeds = data['speed'][time_mask]\<close> is computed and never used.)
\<close>

theorem speed_values_irrelevant:
  assumes "tables_differ_in_speed_only tr tr'"
  shows "fst (calculate_macroscopic_quantities tr dx dt total_length)
           = fst (calculate_macroscopic_quantities tr' dx dt total_length)
       \<and> fst (calculate_macroscopic_quantities_mixed tr dx dt total_length veh_type)
           = fst (calculate_macroscopic_quantities_mixed tr' dx dt total_length veh_type)"
proof -
  have 1: "fst (calculate_macroscopic_quantities tr dx dt total_length)
           = fst (calculate_macroscopic_quantities tr' dx dt total_length)"
    unfolding calculate_macroscopic_quantities_def all_times_speed(1)[OF assms]
    by (rule aggregate_related[OF _ assms]) (rule vehicles_loop_speed)
  have 2: "fst (calculate_macroscopic_quantities_mixed tr dx dt total_length veh_type)
           = fst (calculate_macroscopic_quantities_mixed tr' dx dt total_length veh_type)"
    unfolding calculate_macroscopic_quantities_mixed_def all_times_speed(2)[OF assms]
    by (rule aggregate_related[OF _ assms]) (rule vehicles_loop_mixed_speed)
  from 1 2 show ?thesis by simp
qed

text \<open>C10, witness: one vehicle with two samples, recorded with speeds 0, 0 and with 7, 9.\<close>

theorem speed_values_irrelevant_witness:
  "tables_differ_in_speed_only [(''veh0'', two_samples 0 10 1 20)] [(''veh0'', two_samples_fast 0 10 1 20)]
   \<and> fst (calculate_macroscopic_quantities [(''veh0'', two_samples 0 10 1 20)] 10 10 1000)
     = fst (calculate_macroscopic_quantities [(''veh0'', two_samples_fast 0 10 1 20)] 10 10 1000)"
proof -
  have h: "tables_differ_in_speed_only [(''veh0'', two_samples 0 10 1 20)]
             [(''veh0'', two_samples_fast 0 10 1 20)]"
    by (simp add: tables_differ_in_speed_only_def differ_in_speed_only_def two_samples_def
        two_samples_fast_def)
  from speed_values_irrelevant[OF h, of 10 10 1000] h show ?thesis by simp
qed

section \<open>The values of the cells\<close>

lemma nth_set2d:
  assumes "i < length a" and "j < length (a ! i)"
  shows "set2d a i j v ! i' ! j' = (if i' = i \<and> j' = j then v else a ! i' ! j')"
proof (cases "i' = i")
  case True
  with assms show ?thesis by (simp add: set2d_def nth_list_update)
next
  case False
  then show ?thesis by (simp add: set2d_def)
qed

lemma grid_shape_set2d:
  assumes "grid_shape r c a"
  shows "grid_shape r c (set2d a i j v)"
proof (cases "i < length a")
  case True
  with assms show ?thesis
    by (auto simp: grid_shape_def set2d_def nth_list_update)
next
  case False
  with assms show ?thesis
    by (simp add: grid_shape_def set2d_def)
qed

lemma for_loop_append:
  "for_loop body (xs @ ys) s =
     (case for_loop body xs s of (Some e, s') \<Rightarrow> (Some e, s') | (None, s') \<Rightarrow> for_loop body ys s')"
proof (induction xs arbitrary: s)
  case Nil
  show ?case by simp
next
  case (Cons i xs)
  show ?case
    by (cases "body i s") (auto simp: Cons.IH split: option.splits)
qed

lemma for_loop_inv:
  assumes step: "\<And>i s s'. i < n \<Longrightarrow> I i s \<Longrightarrow> body i s = (None, s') \<Longrightarrow> I (Suc i) s'"
    and "I 0 s" and "for_loop body [0..<n] s = (None, s')"
  shows "I n s'"
  using assms(3) step
proof (induction n arbitrary: s')
  case 0
  with assms(2) show ?case by simp
next
  case (Suc n)
  obtain r s1 where l: "for_loop body [0..<n] s = (r, s1)" by (cases "for_loop body [0..<n] s")
  with Suc.prems(1) have r: "r = None" and b: "body n s1 = (None, s')"
    by (auto simp: for_loop_append split: option.splits prod.splits)
  have "I n s1"
    using l r Suc.prems(2) by (intro Suc.IH) auto
  with b show ?case by (intro Suc.prems(2)[of n s1 s']) simp_all
qed

lemma for_loop_error:
  assumes "\<And>i s e s'. body i s = (Some e, s') \<Longrightarrow> P e"
    and "for_loop body is s = (Some e, s')"
  shows "P e"
  using assms(2)
proof (induction "is" arbitrary: s)
  case Nil
  then show ?case by simp
next
  case (Cons i "is")
  obtain r s1 where b: "body i s = (r, s1)" by (cases "body i s")
  show ?case
  proof (cases r)
    case None
    with b Cons.prems Cons.IH[of s1] show ?thesis by simp
  next
    case (Some e')
    with b Cons.prems assms(1)[of i s e' s1] show ?thesis by simp
  qed
qed

lemma process_cell_inv:
  assumes inv: "cells_inv vehicles dx dt t_bins x_bins tr t x s"
    and t: "t < length t_bins - 1" and x: "x < length x_bins - 1"
    and run: "process_cell (vehicles (t_bins ! t) (t_bins ! (t + 1)) (x_bins ! x) (x_bins ! (x + 1)))
                dx dt t x s = (None, s')"
  shows "cells_inv vehicles dx dt t_bins x_bins tr t (Suc x) s'"
proof -
  from inv have tab: "table s = tr"
    and shd: "grid_shape (length t_bins - 1) (length x_bins - 1) (density s)"
    and shf: "grid_shape (length t_bins - 1) (length x_bins - 1) (flow s)"
    and shv: "grid_shape (length t_bins - 1) (length x_bins - 1) (speed_grid s)"
    and all: "\<forall>t'<length t_bins - 1. \<forall>x'<length x_bins - 1.
            if t' < t \<or> (t' = t \<and> x' < x)
            then \<exists>acc. vehicles (t_bins ! t') (t_bins ! (t' + 1)) (x_bins ! x') (x_bins ! (x' + 1))
                         tr cell_acc0 = Inr acc
                     \<and> cell_at s t' x' = cell_value dx dt acc
            else cell_at s t' x' = (0, 0, 0)"
    unfolding cells_inv_def by blast+
  have cells: "if t' < t \<or> (t' = t \<and> x' < x)
            then \<exists>acc. vehicles (t_bins ! t') (t_bins ! (t' + 1)) (x_bins ! x') (x_bins ! (x' + 1))
                         tr cell_acc0 = Inr acc
                     \<and> cell_at s t' x' = cell_value dx dt acc
            else cell_at s t' x' = (0, 0, 0)"
    if "t' < length t_bins - 1" "x' < length x_bins - 1" for t' x'
    using all that by blast
  from run tab obtain acc where
    acc: "vehicles (t_bins ! t) (t_bins ! (t + 1)) (x_bins ! x) (x_bins ! (x + 1)) tr cell_acc0 = Inr acc"
    and fin: "finish_cell dx dt t x acc s = (None, s')"
    by (auto simp: process_cell_def split: sum.splits)
  have s': "s' = s\<lparr>density := (if dx * dt > 0
                           then set2d (density s) t x (total_time_spent acc / (dx * dt))
                           else density s),
               flow := (if dt > 0
                        then set2d (flow s) t x (real (vehicles_crossed acc) / dt)
                        else flow s),
               speed_grid := (if total_time_spent acc > 0
                              then set2d (speed_grid s) t x (total_distance acc / total_time_spent acc)
                              else speed_grid s)\<rparr>"
    using fin by (simp add: finish_cell_eq)
  have ld: "t < length (density s)" "x < length (density s ! t)"
    and lf: "t < length (flow s)" "x < length (flow s ! t)"
    and lv: "t < length (speed_grid s)" "x < length (speed_grid s ! t)"
    using shd shf shv t x by (simp_all add: grid_shape_def)
  from cells[OF t x] have zero: "cell_at s t x = (0, 0, 0)" by simp
  have here: "cell_at s' t x = cell_value dx dt acc"
    using zero by (simp add: s' cell_at_def cell_value_def nth_set2d ld lf lv)
  have other: "cell_at s' t' x' = cell_at s t' x'" if "\<not> (t' = t \<and> x' = x)" for t' x'
    using that by (auto simp: s' cell_at_def nth_set2d ld lf lv)
  have "if t' < t \<or> (t' = t \<and> x' < Suc x)
        then \<exists>acc. vehicles (t_bins ! t') (t_bins ! (t' + 1)) (x_bins ! x') (x_bins ! (x' + 1))
                     tr cell_acc0 = Inr acc
                 \<and> cell_at s' t' x' = cell_value dx dt acc
        else cell_at s' t' x' = (0, 0, 0)"
    if b: "t' < length t_bins - 1" "x' < length x_bins - 1" for t' x'
  proof (cases "t' = t \<and> x' = x")
    case True
    with acc here show ?thesis by auto
  next
    case False
    then have eq: "(t' < t \<or> (t' = t \<and> x' < Suc x)) = (t' < t \<or> (t' = t \<and> x' < x))" by auto
    show ?thesis
      unfolding eq other[OF False] by (rule cells[OF b])
  qed
  moreover have "table s' = tr"
    using tab by (simp add: s')
  moreover have "grid_shape (length t_bins - 1) (length x_bins - 1) (density s')"
    "grid_shape (length t_bins - 1) (length x_bins - 1) (flow s')"
    "grid_shape (length t_bins - 1) (length x_bins - 1) (speed_grid s')"
    using shd shf shv by (simp_all add: s' grid_shape_set2d)
  ultimately show ?thesis
    unfolding cells_inv_def by blast
qed

lemma cells_inv_next_row:
  assumes "cells_inv vehicles dx dt t_bins x_bins tr t (length x_bins - 1) s"
  shows "cells_inv vehicles dx dt t_bins x_bins tr (Suc t) 0 s"
proof -
  from assms have basics: "table s = tr"
      "grid_shape (length t_bins - 1) (length x_bins - 1) (density s)"
      "grid_shape (length t_bins - 1) (length x_bins - 1) (flow s)"
      "grid_shape (length t_bins - 1) (length x_bins - 1) (speed_grid s)"
    and all: "\<forall>t'<length t_bins - 1. \<forall>x'<length x_bins - 1.
            if t' < t \<or> (t' = t \<and> x' < length x_bins - 1)
            then \<exists>acc. vehicles (t_bins ! t') (t_bins ! (t' + 1)) (x_bins ! x') (x_bins ! (x' + 1))
                         tr cell_acc0 = Inr acc
                     \<and> cell_at s t' x' = cell_value dx dt acc
            else cell_at s t' x' = (0, 0, 0)"
    unfolding cells_inv_def by blast+
  have "if t' < Suc t \<or> (t' = Suc t \<and> x' < 0)
        then \<exists>acc. vehicles (t_bins ! t') (t_bins ! (t' + 1)) (x_bins ! x') (x_bins ! (x' + 1))
                     tr cell_acc0 = Inr acc
                 \<and> cell_at s t' x' = cell_value dx dt acc
        else cell_at s t' x' = (0, 0, 0)"
    if b: "t' < length t_bins - 1" "x' < length x_bins - 1" for t' x'
  proof -
    have eq: "(t' < Suc t \<or> (t' = Suc t \<and> x' < 0)) = (t' < t \<or> (t' = t \<and> x' < length x_bins - 1))"
      using b by auto
    show ?thesis unfolding eq using all b by blast
  qed
  then show ?thesis
    unfolding cells_inv_def using basics by blast
qed

lemma cell_loops_inv:
  assumes "cells_inv vehicles dx dt t_bins x_bins tr 0 0 s"
    and "cell_loops vehicles dx dt t_bins x_bins s = (None, s')"
  shows "cells_inv vehicles dx dt t_bins x_bins tr (length t_bins - 1) 0 s'"
proof (rule for_loop_inv[where I = "\<lambda>t. cells_inv vehicles dx dt t_bins x_bins tr t 0"
      and n = "length t_bins - 1" and s = s
      and body = "\<lambda>t_idx. for_loop (\<lambda>x_idx. process_cell
            (vehicles (t_bins ! t_idx) (t_bins ! (t_idx + 1)) (x_bins ! x_idx) (x_bins ! (x_idx + 1)))
            dx dt t_idx x_idx) [0..<length x_bins - 1]"])
  show "cells_inv vehicles dx dt t_bins x_bins tr 0 0 s" by (rule assms(1))
  show "for_loop (\<lambda>t_idx. for_loop (\<lambda>x_idx. process_cell
            (vehicles (t_bins ! t_idx) (t_bins ! (t_idx + 1)) (x_bins ! x_idx) (x_bins ! (x_idx + 1)))
            dx dt t_idx x_idx) [0..<length x_bins - 1]) [0..<length t_bins - 1] s = (None, s')"
    using assms(2) by (simp add: cell_loops_def Let_def)
next
  fix t s1 s2
  assume t: "t < length t_bins - 1"
    and inv: "cells_inv vehicles dx dt t_bins x_bins tr t 0 s1"
    and run: "for_loop (\<lambda>x_idx. process_cell
            (vehicles (t_bins ! t) (t_bins ! (t + 1)) (x_bins ! x_idx) (x_bins ! (x_idx + 1)))
            dx dt t x_idx) [0..<length x_bins - 1] s1 = (None, s2)"
  have "cells_inv vehicles dx dt t_bins x_bins tr t (length x_bins - 1) s2"
  proof (rule for_loop_inv[where I = "\<lambda>x. cells_inv vehicles dx dt t_bins x_bins tr t x"
        and n = "length x_bins - 1" and s = s1, OF _ inv run])
    fix x s3 s4
    assume "x < length x_bins - 1" "cells_inv vehicles dx dt t_bins x_bins tr t x s3"
      "process_cell (vehicles (t_bins ! t) (t_bins ! (t + 1)) (x_bins ! x) (x_bins ! (x + 1)))
         dx dt t x s3 = (None, s4)"
    then show "cells_inv vehicles dx dt t_bins x_bins tr t (Suc x) s4"
      using t by (intro process_cell_inv[where s = s3]) simp_all
  qed
  then show "cells_inv vehicles dx dt t_bins x_bins tr (Suc t) 0 s2"
    by (rule cells_inv_next_row)
qed

lemma cells_inv_zeros:
  "cells_inv vehicles dx dt t_bins x_bins tr 0 0
     \<lparr>table = tr,
      density = replicate (length t_bins - 1) (replicate (length x_bins - 1) 0),
      flow = replicate (length t_bins - 1) (replicate (length x_bins - 1) 0),
      speed_grid = replicate (length t_bins - 1) (replicate (length x_bins - 1) 0)\<rparr>"
  by (simp add: cells_inv_def grid_shape_def cell_at_def)


lemma arange_nth:
  assumes "arange start stop step = Inr bins" and "i < length bins"
  shows "bins ! i = start + real i * step"
  using assms by (auto simp: arange_def split: if_splits)

lemma nth_scale:
  assumes "t < length a" and "x < length (a ! t)"
  shows "scale c a ! t ! x = a ! t ! x * c"
  using assms by (simp add: scale_def)

lemma aggregate_cells:
  assumes res: "fst (aggregate vehicles all_times tr dx dt total_length) = Inr (d, f, v, tb, xb)"
    and t: "t < length tb" and x: "x < length xb"
  shows "\<exists>acc. vehicles (tb ! t) (tb ! t + dt) (xb ! x) (xb ! x + dx) tr cell_acc0 = Inr acc
           \<and> d ! t ! x = fst (cell_value dx dt acc) * 1000
           \<and> f ! t ! x = fst (snd (cell_value dx dt acc)) * 3600
           \<and> v ! t ! x = snd (snd (cell_value dx dt acc)) * 3.6"
proof -
  from res obtain x_bins t_bins z s where
    xbins: "arange 0 (total_length + dx) dx = Inr x_bins" and
    tbins: "arange (np_min all_times) (np_max all_times + dt) dt = Inr t_bins" and
    z: "zeros (int (length t_bins) - 1) (int (length x_bins) - 1) = Inr z" and
    run: "cell_loops vehicles dx dt t_bins x_bins
            \<lparr>table = tr, density = z, flow = z, speed_grid = z\<rparr> = (None, s)" and
    out: "d = scale 1000 (density s)" "f = scale 3600 (flow s)" "v = scale 3.6 (speed_grid s)"
      "tb = butlast t_bins" "xb = butlast x_bins"
    unfolding aggregate_def Let_def
    by (auto split: if_splits sum.splits prod.splits option.splits)
  from z have nn: "\<not> (int (length t_bins) - 1 < 0 \<or> int (length x_bins) - 1 < 0)"
    by (auto simp: zeros_def split: if_splits)
  then have pos: "1 \<le> length t_bins" "1 \<le> length x_bins" by linarith+
  have zz: "z = replicate (length t_bins - 1) (replicate (length x_bins - 1) 0)"
    using z nn pos by (simp add: zeros_def nat_diff_distrib)
  have inv: "cells_inv vehicles dx dt t_bins x_bins tr (length t_bins - 1) 0 s"
    using run unfolding zz by (intro cell_loops_inv[OF cells_inv_zeros])
  have t': "t < length t_bins - 1" and x': "x < length x_bins - 1"
    using t x out by simp_all
  from inv have sh: "grid_shape (length t_bins - 1) (length x_bins - 1) (density s)"
      "grid_shape (length t_bins - 1) (length x_bins - 1) (flow s)"
      "grid_shape (length t_bins - 1) (length x_bins - 1) (speed_grid s)"
    and all: "\<forall>t'<length t_bins - 1. \<forall>x'<length x_bins - 1.
            if t' < length t_bins - 1 \<or> (t' = length t_bins - 1 \<and> x' < 0)
            then \<exists>acc. vehicles (t_bins ! t') (t_bins ! (t' + 1)) (x_bins ! x') (x_bins ! (x' + 1))
                         tr cell_acc0 = Inr acc
                     \<and> cell_at s t' x' = cell_value dx dt acc
            else cell_at s t' x' = (0, 0, 0)"
    unfolding cells_inv_def by blast+
  from all t' x' obtain acc where
    acc: "vehicles (t_bins ! t) (t_bins ! (t + 1)) (x_bins ! x) (x_bins ! (x + 1)) tr cell_acc0 = Inr acc"
    and val: "cell_at s t x = cell_value dx dt acc"
    by (metis (no_types, lifting))
  have edges: "tb ! t = t_bins ! t" "xb ! x = x_bins ! x"
    using t x out by (simp_all add: nth_butlast)
  have "t_bins ! (t + 1) = t_bins ! t + dt"
    using t' arange_nth[OF tbins, of t] arange_nth[OF tbins, of "t + 1"]
    by (simp add: algebra_simps)
  moreover have "x_bins ! (x + 1) = x_bins ! x + dx"
    using x' arange_nth[OF xbins, of x] arange_nth[OF xbins, of "x + 1"]
    by (simp add: algebra_simps)
  ultimately have acc': "vehicles (tb ! t) (tb ! t + dt) (xb ! x) (xb ! x + dx) tr cell_acc0 = Inr acc"
    using acc edges by simp
  have len: "t < length (density s)" "x < length (density s ! t)"
      "t < length (flow s)" "x < length (flow s ! t)"
      "t < length (speed_grid s)" "x < length (speed_grid s ! t)"
    using sh t' x' by (simp_all add: grid_shape_def)
  have "d ! t ! x = fst (cell_value dx dt acc) * 1000"
    "f ! t ! x = fst (snd (cell_value dx dt acc)) * 3600"
    "v ! t ! x = snd (snd (cell_value dx dt acc)) * 3.6"
    using val[symmetric] len by (simp_all add: out nth_scale cell_at_def)
  with acc' show ?thesis by blast
qed

lemma cell_times_empty:
  assumes "length (pos data) = length (time data)"
    and "masked (window_positions dt total_length t_start t_end data)
           (cell_mask x_start x_end (window_positions dt total_length t_start t_end data)) = []"
  shows "masked (window_times dt t_start t_end data)
           (cell_mask x_start x_end (window_positions dt total_length t_start t_end data)) = []"
proof -
  have "length (window_times dt t_start t_end data)
      = length (window_positions dt total_length t_start t_end data)"
    using assms(1) by (simp add: window_times_def window_positions_def length_masked time_mask_def)
  from length_masked_cell[OF this] assms(2) show ?thesis by simp
qed

lemma process_vehicle_untouched:
  assumes un: "masked (window_positions dt total_length t_start t_end data)
           (cell_mask x_start x_end (window_positions dt total_length t_start t_end data)) = []"
    and run: "process_vehicle dt total_length t_start t_end x_start x_end data acc = Inr acc'"
  shows "acc' = acc"
proof (cases "np_any (time_mask dt t_start t_end data)
    \<and> length (pos data) = length (time data) \<and> length (speed data) = length (time data)")
  case True
  then have "masked (window_times dt t_start t_end data)
           (cell_mask x_start x_end (window_positions dt total_length t_start t_end data)) = []"
    using un by (intro cell_times_empty) simp_all
  with True run show ?thesis
    unfolding process_vehicle_def window_times_def window_positions_def cell_mask_def time_mask_def
    by (simp add: bool_index_def Let_def split: if_splits)
next
  case False
  with run show ?thesis
    unfolding process_vehicle_def time_mask_def[symmetric]
    by (auto simp: bool_index_def Let_def time_mask_def split: if_splits)
qed

lemma vehicles_loop_untouched:
  assumes "no_selected_sample dt total_length t_start t_end x_start x_end tr"
    and "vehicles_loop dt total_length t_start t_end x_start x_end tr acc = Inr acc'"
  shows "acc' = acc"
  using assms
proof (induction tr arbitrary: acc)
  case Nil
  then show ?case by simp
next
  case (Cons p tr)
  obtain k data where p: "p = (k, data)" by (cases p)
  from Cons.prems(2) obtain acc1 where
    one: "process_vehicle dt total_length t_start t_end x_start x_end data acc = Inr acc1"
    and rest: "vehicles_loop dt total_length t_start t_end x_start x_end tr acc1 = Inr acc'"
    by (auto simp: p split: sum.splits)
  from Cons.prems(1) have un: "masked (window_positions dt total_length t_start t_end data)
           (cell_mask x_start x_end (window_positions dt total_length t_start t_end data)) = []"
    and unr: "no_selected_sample dt total_length t_start t_end x_start x_end tr"
    by (simp_all add: no_selected_sample_def p)
  from process_vehicle_untouched[OF un one] Cons.IH[OF unr rest] show ?case by simp
qed

lemma process_vehicle_error:
  "process_vehicle dt total_length t_start t_end x_start x_end data acc = Inl e \<Longrightarrow> e = MaskLength"
  unfolding process_vehicle_def bool_index_def Let_def
  by (auto split: if_splits)

lemma vehicles_loop_error:
  "vehicles_loop dt total_length t_start t_end x_start x_end tr acc = Inl e \<Longrightarrow> e = MaskLength"
proof (induction tr arbitrary: acc)
  case Nil
  then show ?case by simp
next
  case (Cons p tr)
  obtain k data where p: "p = (k, data)" by (cases p)
  from Cons.prems Cons.IH process_vehicle_error show ?case
    by (auto simp: p split: sum.splits)
qed

lemma cell_loops_error:
  assumes "\<And>a b c d tr acc e. vehicles a b c d tr acc = Inl e \<Longrightarrow> e = MaskLength"
    and "cell_loops vehicles dx dt t_bins x_bins s = (Some e, s')"
  shows "e = MaskLength"
  using assms(2) unfolding cell_loops_def Let_def
proof (rule for_loop_error[rotated])
  fix i s e s'
  assume "for_loop (\<lambda>x_idx. process_cell
            (vehicles (t_bins ! i) (t_bins ! (i + 1)) (x_bins ! x_idx) (x_bins ! (x_idx + 1)))
            dx dt i x_idx) [0..<length x_bins - 1] s = (Some e, s')"
  then show "e = MaskLength"
  proof (rule for_loop_error[rotated])
    fix j s e s'
    assume "process_cell
            (vehicles (t_bins ! i) (t_bins ! (i + 1)) (x_bins ! j) (x_bins ! (j + 1)))
            dx dt i j s = (Some e, s')"
    then show "e = MaskLength"
      using assms(1) by (auto simp: process_cell_def finish_cell_eq split: sum.splits)
  qed
qed

lemma aggregate_error:
  assumes "\<And>a b c d tr acc e. vehicles a b c d tr acc = Inl e \<Longrightarrow> e = MaskLength"
  shows "fst (aggregate vehicles all_times tr dx dt total_length) \<noteq> Inl ZeroDivision"
proof -
  have "e \<noteq> ZeroDivision"
    if "cell_loops vehicles dx dt t_bins x_bins s = (Some e, s')" for t_bins x_bins s e s'
    using cell_loops_error[OF assms that] by simp
  then show ?thesis
    unfolding aggregate_def Let_def
    by (auto simp: arange_def zeros_def split: if_splits sum.splits prod.splits option.splits)
qed

text \<open>
  C7, as the code has it. The call never raises from a division inside a cell (the three
  divisions are guarded by \<^verbatim>\<open>area > 0\<close>, \<^verbatim>\<open>dt > 0\<close> and \<^verbatim>\<open>total_time_spent > 0\<close>). When it
  returns, then for every cell \<open>(t_idx, x_idx)\<close> of the returned arrays: the vehicle loop of
  the cell has ended with totals \<open>acc\<close>, and the speed entry is 0 when the accumulated time
  is not positive; and when no vehicle has a sample with its time in the margin window
  \<open>[t_start - dt, t_end + dt]\<close> of the cell and its wrapped position in
  \<open>[x_start, x_end)\<close>, the density, flow and speed entries of the cell are exactly 0. The
  samples of the margin, outside the cell, count: see the counterexample below.
\<close>

theorem empty_cell_convention:
  "fst (calculate_macroscopic_quantities tr dx dt total_length) \<noteq> Inl ZeroDivision
   \<and> (\<forall>d f v tb xb t_idx x_idx.
        fst (calculate_macroscopic_quantities tr dx dt total_length) = Inr (d, f, v, tb, xb)
        \<and> t_idx < length tb \<and> x_idx < length xb \<longrightarrow>
          (\<exists>acc. vehicles_loop dt total_length (tb ! t_idx) (tb ! t_idx + dt)
                   (xb ! x_idx) (xb ! x_idx + dx) tr cell_acc0 = Inr acc
                 \<and> (total_time_spent acc \<le> 0 \<longrightarrow> v ! t_idx ! x_idx = 0))
          \<and> (no_selected_sample dt total_length (tb ! t_idx) (tb ! t_idx + dt)
                 (xb ! x_idx) (xb ! x_idx + dx) tr
               \<longrightarrow> d ! t_idx ! x_idx = 0 \<and> f ! t_idx ! x_idx = 0 \<and> v ! t_idx ! x_idx = 0))"
proof (intro conjI allI impI)
  show "fst (calculate_macroscopic_quantities tr dx dt total_length) \<noteq> Inl ZeroDivision"
    unfolding calculate_macroscopic_quantities_def
    by (rule aggregate_error) (rule vehicles_loop_error)
next
  fix d f v tb xb t_idx x_idx
  assume a: "fst (calculate_macroscopic_quantities tr dx dt total_length) = Inr (d, f, v, tb, xb)
        \<and> t_idx < length tb \<and> x_idx < length xb"
  then obtain acc where
    acc: "vehicles_loop dt total_length (tb ! t_idx) (tb ! t_idx + dt)
                   (xb ! x_idx) (xb ! x_idx + dx) tr cell_acc0 = Inr acc"
    and val: "d ! t_idx ! x_idx = fst (cell_value dx dt acc) * 1000"
      "f ! t_idx ! x_idx = fst (snd (cell_value dx dt acc)) * 3600"
      "v ! t_idx ! x_idx = snd (snd (cell_value dx dt acc)) * 3.6"
    unfolding calculate_macroscopic_quantities_def
    using aggregate_cells[where vehicles = "\<lambda>t_start t_end x_start x_end.
        vehicles_loop dt total_length t_start t_end x_start x_end"
        and tr = tr and dx = dx and dt = dt and total_length = total_length
        and d = d and f = f and v = v and tb = tb and xb = xb and t = t_idx and x = x_idx]
    by blast
  show "\<exists>acc. vehicles_loop dt total_length (tb ! t_idx) (tb ! t_idx + dt)
                   (xb ! x_idx) (xb ! x_idx + dx) tr cell_acc0 = Inr acc
                 \<and> (total_time_spent acc \<le> 0 \<longrightarrow> v ! t_idx ! x_idx = 0)"
    using acc val(3) by (auto simp: cell_value_def)
  assume "no_selected_sample dt total_length (tb ! t_idx) (tb ! t_idx + dt) (xb ! x_idx) (xb ! x_idx + dx) tr"
  from vehicles_loop_untouched[OF this acc] have "acc = cell_acc0" .
  with val show "d ! t_idx ! x_idx = 0" "f ! t_idx ! x_idx = 0" "v ! t_idx ! x_idx = 0"
    by (simp_all add: cell_value_def cell_acc0_def)
qed

lemmas grid_defs = calculate_macroscopic_quantities_def aggregate_def arange_def zeros_def
  np_min_def np_max_def cell_loops_def process_cell_def finish_cell_eq set2d_def scale_def
  upt_conv_Cons eval_nat_numeral

text \<open>
  C7, witness: one vehicle sampled at positions 12 and 15 on a corridor of length 20 with
  \<open>dx = dt = 10\<close>; no sample is selected for the cell \<open>[0, 10) \<times> [0, 10)\<close>, the other cell has both.
\<close>

theorem empty_cell_convention_witness:
  "fst (calculate_macroscopic_quantities [(''veh0'', two_samples 0 12 1 15)] 10 10 20)
     = Inr ([[0, 10]], [[0, 0]], [[0, 54 / 5]], [0], [0, 10])
   \<and> (0::nat) < length [0::real] \<and> (0::nat) < length [0::real, 10]
   \<and> no_selected_sample 10 20 0 10 0 10 [(''veh0'', two_samples 0 12 1 15)]
   \<and> [[0::real, 10]] ! 0 ! 0 = 0 \<and> [[0::real, 0]] ! 0 ! 0 = 0 \<and> [[0::real, 54 / 5]] ! 0 ! 0 = 0"
proof -
  have r: "fst (calculate_macroscopic_quantities [(''veh0'', two_samples 0 12 1 15)] 10 10 20)
     = Inr ([[0, 10]], [[0, 0]], [[0, 54 / 5]], [0], [0, 10])"
    by (simp add: grid_defs eval_defs two_samples_def)
  have u: "no_selected_sample 10 20 0 10 0 10 [(''veh0'', two_samples 0 12 1 15)]"
    by (simp add: no_selected_sample_def eval_defs two_samples_def)
  have "no_selected_sample 10 20 ([0] ! 0) ([0] ! 0 + 10) ([0, 10] ! 0) ([0, 10] ! 0 + 10)
          [(''veh0'', two_samples 0 12 1 15)]
        \<longrightarrow> [[0::real, 10]] ! 0 ! 0 = 0 \<and> [[0::real, 0]] ! 0 ! 0 = 0 \<and> [[0::real, 54 / 5]] ! 0 ! 0 = 0"
    using empty_cell_convention[of "[(''veh0'', two_samples 0 12 1 15)]" 10 10 20,
        THEN conjunct2, rule_format,
        of "[[0, 10]]" "[[0, 0]]" "[[0, 54 / 5]]" "[0]" "[0, 10]" 0 0] r
    by simp
  with r u show ?thesis by simp
qed

text \<open>
  C7 as stated fails: a cell with no sample inside it can have non-zero entries, because
  the loop body also selects the samples of the margin \<open>dt\<close> before and after the time bin.
  With \<open>dx = 100\<close>, \<open>dt = 10\<close> on a corridor of length 1000: the vehicle sampled at times
  0, 12, 14 at positions 50, 150, 250 has no sample in the cell \<open>[0, 10) \<times> [100, 200)\<close>
  (its sample at position 150 is at time 12), and the flow of that cell is 360 veh/hr;
  the vehicle sampled at times -5, -4, 16 at positions 90, 110, 190 has no sample at all
  during the time bin \<open>[5, 15)\<close>, and the cell \<open>[5, 15) \<times> [100, 200)\<close> has density
  10 veh/km, flow 360 veh/hr and speed 28.8 km/h.
\<close>

theorem empty_cell_convention_counterexample:
  "no_sample_inside 1000 0 10 100 200 [(''veh0'', passing_vehicle)]
   \<and> (case fst (calculate_macroscopic_quantities [(''veh0'', passing_vehicle)] 100 10 1000) of
        Inl e \<Rightarrow> False
      | Inr (d, f, v, tb, xb) \<Rightarrow> tb ! 0 = 0 \<and> xb ! 1 = 100 \<and> f ! 0 ! 1 = 360)
   \<and> no_sample_inside 1000 5 15 100 200 [(''veh0'', straddling_vehicle)]
   \<and> (case fst (calculate_macroscopic_quantities [(''veh0'', straddling_vehicle)] 100 10 1000) of
        Inl e \<Rightarrow> False
      | Inr (d, f, v, tb, xb) \<Rightarrow>
          tb ! 1 = 5 \<and> xb ! 1 = 100 \<and> d ! 1 ! 1 = 10 \<and> f ! 1 ! 1 = 360 \<and> v ! 1 ! 1 = 144 / 5)"
  by (simp add: no_sample_inside_def grid_defs eval_defs passing_vehicle_def straddling_vehicle_def)

section \<open>The concrete scenario\<close>

lemma scenario_arrays:
  "time scenario_vehicle = map real [0..<101]"
  "parallel_arrays scenario_vehicle"
  by (simp_all add: scenario_vehicle_def parallel_arrays_def)

lemma scenario_window_times:
  "window_times 100 0 100 scenario_vehicle = map real [0..<101]"
  by (simp add: window_times_def time_mask_def masked_def scenario_arrays(1)
      upt_conv_Cons eval_nat_numeral)

lemma scenario_window_positions:
  "window_positions 100 1000 0 100 scenario_vehicle = map (\<lambda>i. 10 * real i) [0..<100] @ [0]"
  by (simp add: window_positions_def time_mask_def masked_def scenario_vehicle_def wrap_def
      upt_conv_Cons eval_nat_numeral)

lemma scenario_process:
  "process_vehicle 100 1000 0 100 x_start x_end scenario_vehicle acc =
     (let times' = window_times 100 0 100 scenario_vehicle;
          positions = window_positions 100 1000 0 100 scenario_vehicle;
          mask = cell_mask x_start x_end positions;
          cell_times = masked times' mask;
          cell_positions = masked positions mask
      in if cell_times = [] then Inr acc
         else
           let acc1 =
             (if time_in_cell 0 100 cell_times > 0
              then acc\<lparr>total_time_spent := total_time_spent acc + time_in_cell 0 100 cell_times,
                       total_distance := total_distance acc +
                         (if distance_in_cell x_start x_end cell_positions > 0
                          then distance_in_cell x_start x_end cell_positions else 0)\<rparr>
              else acc)
           in Inr (acc1\<lparr>vehicles_crossed := vehicles_crossed acc1 +
                 (if isnan (interp x_start positions times') \<and> isnan (interp x_end positions times')
                  then 0 else 1)\<rparr>))"
  by (rule process_vehicle_window) (simp_all add: scenario_arrays(2) scenario_window_times)

lemma scenario_cells:
  "vehicles_loop 100 1000 0 100 0 100 [(''veh0'', scenario_vehicle)] cell_acc0
     = Inr \<lparr>total_time_spent = 100, total_distance = 0, vehicles_crossed = 1\<rparr>"
  "vehicles_loop 100 1000 0 100 100 200 [(''veh0'', scenario_vehicle)] cell_acc0
     = Inr \<lparr>total_time_spent = 9, total_distance = 90, vehicles_crossed = 0\<rparr>"
  "vehicles_loop 100 1000 0 100 200 300 [(''veh0'', scenario_vehicle)] cell_acc0
     = Inr \<lparr>total_time_spent = 9, total_distance = 90, vehicles_crossed = 0\<rparr>"
  "vehicles_loop 100 1000 0 100 300 400 [(''veh0'', scenario_vehicle)] cell_acc0
     = Inr \<lparr>total_time_spent = 9, total_distance = 90, vehicles_crossed = 0\<rparr>"
  "vehicles_loop 100 1000 0 100 400 500 [(''veh0'', scenario_vehicle)] cell_acc0
     = Inr \<lparr>total_time_spent = 9, total_distance = 90, vehicles_crossed = 0\<rparr>"
  "vehicles_loop 100 1000 0 100 500 600 [(''veh0'', scenario_vehicle)] cell_acc0
     = Inr \<lparr>total_time_spent = 9, total_distance = 90, vehicles_crossed = 0\<rparr>"
  "vehicles_loop 100 1000 0 100 600 700 [(''veh0'', scenario_vehicle)] cell_acc0
     = Inr \<lparr>total_time_spent = 9, total_distance = 90, vehicles_crossed = 0\<rparr>"
  "vehicles_loop 100 1000 0 100 700 800 [(''veh0'', scenario_vehicle)] cell_acc0
     = Inr \<lparr>total_time_spent = 9, total_distance = 90, vehicles_crossed = 0\<rparr>"
  "vehicles_loop 100 1000 0 100 800 900 [(''veh0'', scenario_vehicle)] cell_acc0
     = Inr \<lparr>total_time_spent = 9, total_distance = 90, vehicles_crossed = 0\<rparr>"
  "vehicles_loop 100 1000 0 100 900 1000 [(''veh0'', scenario_vehicle)] cell_acc0
     = Inr \<lparr>total_time_spent = 9, total_distance = 90, vehicles_crossed = 0\<rparr>"
  by (simp_all add: scenario_process scenario_window_times scenario_window_positions Let_def
      cell_mask_def masked_def time_in_cell_def distance_in_cell_def isnan_interp off_range_def
      cell_acc0_def upt_conv_Cons eval_nat_numeral)

lemma scenario_grids:
  "fst (calculate_macroscopic_quantities [(''veh0'', scenario_vehicle)] 100 100 1000)
     = Inr ([[10, 9 / 10, 9 / 10, 9 / 10, 9 / 10, 9 / 10, 9 / 10, 9 / 10, 9 / 10, 9 / 10]],
            [[36, 0, 0, 0, 0, 0, 0, 0, 0, 0]],
            [[0, 36, 36, 36, 36, 36, 36, 36, 36, 36]],
            [0],
            [0, 100, 200, 300, 400, 500, 600, 700, 800, 900])"
  by (simp add: grid_defs scenario_arrays(1) scenario_cells del: vehicles_loop.simps)

text \<open>
  C2, as the code computes it. For one vehicle on a corridor of length 1000 with
  \<open>dx = dt = 100\<close>, entering at time 0 at position 0 at 10 m/s and sampled every second from
  0 to 100, there is one time bin \<open>[0, 100)\<close>. The spatial bins 1 to 9 each receive
  \<open>time_spent = 9\<close> (density 0.9 veh/km), \<open>distance_travelled = 90\<close> (speed 36 km/h) and
  \<open>crossing_count = 0\<close> (flow 0). The spatial bin 0, which also receives the last sample
  (position 1000, wrapped to 0), receives \<open>time_spent = 100\<close> (density 10 veh/km),
  \<open>distance_travelled = 0\<close> (speed 0) and \<open>crossing_count = 1\<close> (flow 36 veh/hr).
\<close>

theorem scenario_result:
  "fst (calculate_macroscopic_quantities [(''veh0'', scenario_vehicle)] 100 100 1000)
     = Inr ([[10, 9 / 10, 9 / 10, 9 / 10, 9 / 10, 9 / 10, 9 / 10, 9 / 10, 9 / 10, 9 / 10]],
            [[36, 0, 0, 0, 0, 0, 0, 0, 0, 0]],
            [[0, 36, 36, 36, 36, 36, 36, 36, 36, 36]],
            [0],
            [0, 100, 200, 300, 400, 500, 600, 700, 800, 900])
   \<and> map (\<lambda>k. vehicles_loop 100 1000 0 100 (100 * real k) (100 * real k + 100)
                 [(''veh0'', scenario_vehicle)] cell_acc0) [0..<10]
     = Inr \<lparr>total_time_spent = 100, total_distance = 0, vehicles_crossed = 1\<rparr>
       # replicate 9 (Inr \<lparr>total_time_spent = 9, total_distance = 90, vehicles_crossed = 0\<rparr>)"
  by (simp add: scenario_grids scenario_cells upt_conv_Cons eval_nat_numeral del: vehicles_loop.simps)

text \<open>
  C2 as stated fails: in the spatial bin \<open>[100, 200)\<close> the vehicle's samples are those of the
  times 10 to 19, so \<open>time_spent\<close> is 9 and not 10, \<open>distance_travelled\<close> is 90 and not
  100, and \<open>crossing_count\<close> is 0 (both boundaries are beyond the last wrapped position 0);
  the returned arrays are not the claimed ones.
\<close>

theorem scenario_counterexample:
  "vehicles_loop 100 1000 0 100 100 200 [(''veh0'', scenario_vehicle)] cell_acc0
     = Inr \<lparr>total_time_spent = 9, total_distance = 90, vehicles_crossed = 0\<rparr>
   \<and> fst (calculate_macroscopic_quantities [(''veh0'', scenario_vehicle)] 100 100 1000)
     \<noteq> Inr ([[1, 1, 1, 1, 1, 1, 1, 1, 1, 1]],
             [[36, 36, 36, 36, 36, 36, 36, 36, 36, 36]],
             [[36, 36, 36, 36, 36, 36, 36, 36, 36, 36]],
             [0],
             [0, 100, 200, 300, 400, 500, 600, 700, 800, 900])"
  by (simp add: scenario_grids scenario_cells del: vehicles_loop.simps)

section \<open>The reconstruction, vehicle by vehicle\<close>

lemma dict_get_set: "dict_get (dict_set tr k v) k' = (if k' = k then v else dict_get tr k')"
  by (induction tr) auto

lemma read_stream_flatten:
  "read_stream add stream = fold (\<lambda>p. add (fst p) (snd p)) (flatten stream) []"
proof -
  have inner: "fold (add t) vehicles tr = fold (\<lambda>p. add (fst p) (snd p)) (map (Pair t) vehicles) tr"
    for t vehicles tr
    by (induction vehicles arbitrary: tr) simp_all
  have "fold (\<lambda>(t, vehicles). fold (add t) vehicles) stream tr
      = fold (\<lambda>p. add (fst p) (snd p)) (flatten stream) tr" for tr
    by (induction stream arbitrary: tr) (auto simp: flatten_def inner)
  then show ?thesis by (simp add: read_stream_def)
qed

lemma add_observation_pos:
  "pos (dict_get (add_observation t ob tr) k)
     = (if veh_id ob = k
        then pos (dict_get tr k) @ [continuous_pos (pos (dict_get tr k)) (obs_lane ob) (raw_pos ob)]
        else pos (dict_get tr k))"
  by (simp add: add_observation_def Let_def dict_get_set)

lemma add_observation_time:
  "time (dict_get (add_observation t ob tr) k)
     = (if veh_id ob = k then time (dict_get tr k) @ [t] else time (dict_get tr k))"
  by (simp add: add_observation_def Let_def dict_get_set)

lemma fold_add_observation_pos:
  "pos (dict_get (fold (\<lambda>p. add_observation (fst p) (snd p)) xs tr) k)
     = first_pass (map snd (filter (\<lambda>p. veh_id (snd p) = k) xs)) (pos (dict_get tr k))"
proof (induction xs arbitrary: tr)
  case Nil
  show ?case by (simp add: first_pass_def)
next
  case (Cons p xs)
  have "pos (dict_get (fold (\<lambda>p. add_observation (fst p) (snd p)) (p # xs) tr) k)
      = first_pass (map snd (filter (\<lambda>p. veh_id (snd p) = k) xs))
          (pos (dict_get (add_observation (fst p) (snd p) tr) k))"
    using Cons.IH[of "add_observation (fst p) (snd p) tr"] by simp
  then show ?case
    by (simp add: add_observation_pos first_pass_def)
qed

lemma fold_add_observation_time:
  "time (dict_get (fold (\<lambda>p. add_observation (fst p) (snd p)) xs tr) k)
     = time (dict_get tr k) @ map fst (filter (\<lambda>p. veh_id (snd p) = k) xs)"
proof (induction xs arbitrary: tr)
  case Nil
  show ?case by simp
next
  case (Cons p xs)
  have "time (dict_get (fold (\<lambda>p. add_observation (fst p) (snd p)) (p # xs) tr) k)
      = time (dict_get (add_observation (fst p) (snd p) tr) k)
        @ map fst (filter (\<lambda>p. veh_id (snd p) = k) xs)"
    using Cons.IH[of "add_observation (fst p) (snd p) tr"] by simp
  then show ?case
    by (simp add: add_observation_time)
qed

lemma dict_get_map:
  "dict_get (map (\<lambda>(veh_id, data). (veh_id, data\<lparr>pos := f (pos data)\<rparr>)) tr) k
     = (if k \<in> fst ` set tr then (dict_get tr k)\<lparr>pos := f (pos (dict_get tr k))\<rparr>
        else default_data)"
  by (induction tr) (force split: if_splits)+

lemma dict_get_missing: "k \<notin> fst ` set tr \<Longrightarrow> dict_get tr k = default_data"
  by (induction tr) auto

lemma adjust_laps_Nil: "adjust_laps [] = []"
  by (simp add: adjust_laps_def)

lemma parse_fcd_file_vehicle:
  "pos (dict_get (parse_fcd_file stream) k)
     = adjust_laps (first_pass (map snd (observations_of k stream)) [])"
  "time (dict_get (parse_fcd_file stream) k) = map fst (observations_of k stream)"
proof -
  let ?tr = "read_stream add_observation stream"
  have p: "pos (dict_get ?tr k) = first_pass (map snd (observations_of k stream)) []"
    and t: "time (dict_get ?tr k) = map fst (observations_of k stream)"
    by (simp_all add: read_stream_flatten fold_add_observation_pos fold_add_observation_time
        observations_of_def default_data_def)
  show "pos (dict_get (parse_fcd_file stream) k)
     = adjust_laps (first_pass (map snd (observations_of k stream)) [])"
  proof (cases "k \<in> fst ` set ?tr")
    case True
    then show ?thesis by (simp add: parse_fcd_file_def dict_get_map p)
  next
    case False
    with p dict_get_missing[OF False] show ?thesis
      by (simp add: parse_fcd_file_def dict_get_map default_data_def adjust_laps_Nil)
  qed
  show "time (dict_get (parse_fcd_file stream) k) = map fst (observations_of k stream)"
  proof (cases "k \<in> fst ` set ?tr")
    case True
    then show ?thesis by (simp add: parse_fcd_file_def dict_get_map t)
  next
    case False
    with t dict_get_missing[OF False] show ?thesis
      by (simp add: parse_fcd_file_def dict_get_map default_data_def)
  qed
qed

lemma lap_step_split:
  assumes "length pre = i" and "pre \<noteq> []"
  shows "lap_step i (pre @ q # qs)
       = pre @ (if q < last pre - corridor_length / 2
                then map (\<lambda>p. p + corridor_length) (q # qs) else q # qs)"
proof -
  from assms have "0 < i" by auto
  then have "(pre @ q # qs) ! (i - 1) = last pre"
    using assms by (simp add: nth_append last_conv_nth)
  moreover have "(pre @ q # qs) ! i = q"
    using assms by (simp add: nth_append)
  ultimately show ?thesis
    using assms by (simp add: lap_step_def)
qed

lemma fold_lap_step:
  assumes "length pre = i" and "pre \<noteq> []"
  shows "fold lap_step [i..<i + length rest] (pre @ rest) = pre @ shift_laps (last pre) rest"
  using assms
proof (induction rest arbitrary: pre i rule: length_induct)
  case (1 rest)
  show ?case
  proof (cases rest)
    case Nil
    then show ?thesis by simp
  next
    case (Cons q qs)
    have e: "i + length rest = Suc i + length qs"
      by (simp add: Cons)
    have "[i..<Suc i + length qs] = i # [Suc i..<Suc i + length qs]"
      by (rule upt_conv_Cons) simp
    then have upt: "[i..<i + length rest] = i # [Suc i..<Suc i + length qs]"
      by (simp only: e)
    have first: "fold lap_step [i..<i + length rest] (pre @ rest)
        = fold lap_step [Suc i..<Suc i + length qs] (lap_step i (pre @ q # qs))"
      by (subst upt) (simp only: fold_simps o_apply Cons)
    have IH: "fold lap_step [Suc i..<Suc i + length qs'] ((pre @ [q']) @ qs')
        = (pre @ [q']) @ shift_laps q' qs'"
      if "length qs' = length qs" for q' qs'
    proof -
      have "length qs' < length rest" using that by (simp add: Cons)
      moreover have "length (pre @ [q']) = Suc i" using "1.prems" by simp
      moreover have "pre @ [q'] \<noteq> []" by simp
      ultimately have "fold lap_step [Suc i..<Suc i + length qs'] ((pre @ [q']) @ qs')
          = (pre @ [q']) @ shift_laps (last (pre @ [q'])) qs'"
        using "1.IH" by blast
      then show ?thesis by (simp only: last_snoc)
    qed
    show ?thesis
    proof (cases "q < last pre - corridor_length / 2")
      case True
      have "lap_step i (pre @ q # qs)
          = (pre @ [q + corridor_length]) @ map (\<lambda>p. p + corridor_length) qs"
        using True lap_step_split[OF "1.prems", of q qs] by simp
      then have "fold lap_step [i..<i + length rest] (pre @ rest)
          = (pre @ [q + corridor_length])
            @ shift_laps (q + corridor_length) (map (\<lambda>p. p + corridor_length) qs)"
        using IH[of "map (\<lambda>p. p + corridor_length) qs" "q + corridor_length"] first
        by (simp only: length_map)
      with True show ?thesis by (simp add: Cons)
    next
      case False
      have "lap_step i (pre @ q # qs) = (pre @ [q]) @ qs"
        using False lap_step_split[OF "1.prems", of q qs] by simp
      then have "fold lap_step [i..<i + length rest] (pre @ rest) = (pre @ [q]) @ shift_laps q qs"
        using IH[of qs q] first by simp
      with False show ?thesis by (simp add: Cons)
    qed
  qed
qed

lemma adjust_laps_Cons: "adjust_laps (p # ps) = p # shift_laps p ps"
  using fold_lap_step[of "[p]" 1 ps] by (simp add: adjust_laps_def)

lemma lap_bounds:
  "of_int (lap y) * 1000 \<le> y" "y < of_int (lap y) * 1000 + 1000"
proof -
  have "of_int \<lfloor>y / 1000\<rfloor> \<le> y / 1000" by (rule of_int_floor_le)
  then show "of_int (lap y) * 1000 \<le> y"
    unfolding lap_def corridor_length_def by linarith
  have "y / 1000 < of_int \<lfloor>y / 1000\<rfloor> + 1" by linarith
  then show "y < of_int (lap y) * 1000 + 1000"
    unfolding lap_def corridor_length_def by linarith
qed

lemma wrap_lap: "wrap y corridor_length = y - 1000 * of_int (lap y)"
  by (simp add: wrap_def lap_def corridor_length_def)

lemma lap_unique:
  assumes "of_int k * 1000 \<le> y" and "y < of_int k * 1000 + 1000"
  shows "lap y = k"
  unfolding lap_def corridor_length_def
  by (rule floor_unique) (use assms in \<open>simp_all add: field_simps\<close>)

lemma lap_next:
  assumes "y \<le> y'" and "y' < y + 500"
  shows "lap y' = lap y \<or> lap y' = lap y + 1"
proof (cases "y' < of_int (lap y) * 1000 + 1000")
  case True
  have "lap y' = lap y"
    using lap_bounds(1)[of y] assms(1) True by (intro lap_unique) simp_all
  then show ?thesis by simp
next
  case False
  have "lap y' = lap y + 1"
    using lap_bounds(2)[of y] assms(2) False by (intro lap_unique) simp_all
  then show ?thesis by simp
qed

lemma lap_first: "0 \<le> y \<Longrightarrow> y < 1000 \<Longrightarrow> lap y = 0"
  by (rule lap_unique) simp_all

lemma lap_later:
  assumes "1000 \<le> y"
  shows "1 \<le> lap y"
proof -
  have "(1::real) \<le> y / 1000" using assms by simp
  then have "\<lfloor>1::real\<rfloor> \<le> \<lfloor>y / 1000\<rfloor>" by (rule floor_mono)
  then show ?thesis by (simp add: lap_def corridor_length_def)
qed

lemma stored_pos_lap:
  "stored_pos y = y - 1000 * of_int (lap y) + (if 1000 \<le> y then 1000 else 0)"
  by (simp add: stored_pos_def wrap_lap) (simp add: corridor_length_def)

lemma stored_pos_offset:
  assumes "0 \<le> y"
  shows "y - stored_pos y = (if 1000 \<le> y then 1000 * (of_int (lap y) - 1) else 0)"
  using assms lap_first[of y] by (simp add: stored_pos_lap)

text \<open>
  The three ways two consecutive samples can lie: both on the first lap, the second just
  beyond it, both beyond it (on the same lap or on consecutive laps).
\<close>

lemma consecutive_cases:
  assumes "0 \<le> y" and "y \<le> y'" and "y' < y + 500"
  obtains
    (first) "y' < 1000" "stored_pos y = y" "stored_pos y' = y'" "wrap y' corridor_length = y'"
  | (enter) "y < 1000" "1000 \<le> y'" "stored_pos y = y" "stored_pos y' = y'"
      "wrap y' corridor_length = y' - 1000"
  | (same) K where "1000 \<le> y" "stored_pos y = y - 1000 * K + 1000"
      "stored_pos y' = y' - 1000 * K + 1000" "wrap y' corridor_length = y' - 1000 * K"
  | (wrapped) K where "1000 \<le> y" "stored_pos y = y - 1000 * K + 1000"
      "stored_pos y' = y' - 1000 * K" "wrap y' corridor_length = y' - 1000 * K - 1000"
      "y' - 1000 * K - 1000 < y - 1000 * K - 500"
proof (cases "1000 \<le> y")
  case False
  then have l: "lap y = 0" using assms(1) by (intro lap_first) simp_all
  show ?thesis
  proof (cases "1000 \<le> y'")
    case y': False
    then have "lap y' = 0" using assms by (intro lap_first) simp_all
    with y' False l show ?thesis
      by (intro first) (simp_all add: stored_pos_lap wrap_lap)
  next
    case y': True
    have "lap y' = 1" using y' False assms by (intro lap_unique) simp_all
    with y' False l show ?thesis
      by (intro enter) (simp_all add: stored_pos_lap wrap_lap)
  qed
next
  case True
  then have y': "1000 \<le> y'" using assms by simp
  from lap_next[OF assms(2,3)] show ?thesis
  proof
    assume "lap y' = lap y"
    with True y' show ?thesis
      by (intro same[of "of_int (lap y)"]) (simp_all add: stored_pos_lap wrap_lap)
  next
    assume e: "lap y' = lap y + 1"
    have "y' - 1000 * of_int (lap y) - 1000 < y - 1000 * of_int (lap y) - 500"
      using assms by simp
    with True y' e show ?thesis
      by (intro wrapped[of "of_int (lap y)"]) (simp_all add: stored_pos_lap wrap_lap algebra_simps)
  qed
qed

lemma first_pass_step:
  assumes "0 \<le> y" and "y \<le> y'" and "y' < y + 500"
  shows "(if stored_pos y > wrap y' corridor_length + corridor_length / 2
          then wrap y' corridor_length + corridor_length else wrap y' corridor_length)
         = stored_pos y'"
  using assms
  by (cases rule: consecutive_cases[OF assms]) (simp_all add: corridor_length_def)

lemma second_pass_step:
  assumes "0 \<le> y" and "y \<le> y'" and "y' < y + 500"
  shows "if stored_pos y' + (y - stored_pos y) < y - corridor_length / 2
         then stored_pos y' + (y - stored_pos y) + corridor_length = y'
         else stored_pos y' + (y - stored_pos y) = y'"
  using assms
  by (cases rule: consecutive_cases[OF assms]) (simp_all add: corridor_length_def)

lemma continuous_pos_corridor:
  "continuous_pos previous (obs_lane ob) (raw_pos ob)
     = (if previous \<noteq> [] \<and> last previous > corridor_pos ob + corridor_length / 2
        then corridor_pos ob + corridor_length else corridor_pos ob)"
  by (simp add: continuous_pos_def corridor_pos_def Let_def)

lemma first_pass_trajectory:
  assumes "small_steps y ys" and "0 \<le> y" and "list_all2 reports ys obs"
    and "previous \<noteq> []" and "last previous = stored_pos y"
  shows "first_pass obs previous = previous @ map stored_pos ys"
  using assms
proof (induction ys arbitrary: y obs previous)
  case Nil
  then show ?case by (simp add: first_pass_def)
next
  case (Cons y' ys)
  from Cons.prems(3) obtain ob obs' where obs: "obs = ob # obs'"
    and rep: "reports y' ob" and rest: "list_all2 reports ys obs'"
    by (auto simp: list_all2_Cons1)
  from Cons.prems(1) have st: "y \<le> y'" "y' < y + 500" and more: "small_steps y' ys"
    by (simp_all add: corridor_length_def)
  have new: "continuous_pos previous (obs_lane ob) (raw_pos ob) = stored_pos y'"
    using first_pass_step[OF Cons.prems(2) st] rep Cons.prems(4,5)
    by (simp add: continuous_pos_corridor reports_def split: if_splits)
  have "first_pass obs' (previous @ [stored_pos y'])
      = (previous @ [stored_pos y']) @ map stored_pos ys"
    using more st Cons.prems(2) rest by (intro Cons.IH[of y']) simp_all
  then show ?case
    by (simp add: obs first_pass_def new)
qed

lemma shift_laps_trajectory:
  assumes "small_steps y ys" and "0 \<le> y"
  shows "shift_laps y (map (\<lambda>z. stored_pos z + (y - stored_pos y)) ys) = ys"
  using assms
proof (induction ys arbitrary: y)
  case Nil
  show ?case by simp
next
  case (Cons y' ys)
  from Cons.prems(1) have st: "y \<le> y'" "y' < y + 500" and more: "small_steps y' ys"
    by (simp_all add: corridor_length_def)
  have IH: "shift_laps y' (map (\<lambda>z. stored_pos z + (y' - stored_pos y')) ys) = ys"
    using more st Cons.prems(2) by (intro Cons.IH) simp_all
  show ?case
  proof (cases "stored_pos y' + (y - stored_pos y) < y - corridor_length / 2")
    case True
    with second_pass_step[OF Cons.prems(2) st]
    have e: "stored_pos y' + (y - stored_pos y) + corridor_length = y'" by simp
    then have feq: "(\<lambda>p. p + corridor_length) \<circ> (\<lambda>z. stored_pos z + (y - stored_pos y))
        = (\<lambda>z. stored_pos z + (y' - stored_pos y'))"
      by (auto simp: fun_eq_iff algebra_simps)
    have "shift_laps y (map (\<lambda>z. stored_pos z + (y - stored_pos y)) (y' # ys))
        = y' # shift_laps y' (map ((\<lambda>p. p + corridor_length) \<circ> (\<lambda>z. stored_pos z + (y - stored_pos y))) ys)"
      using True e by simp
    also have "\<dots> = y' # ys"
      by (simp only: feq IH)
    finally show ?thesis .
  next
    case False
    with second_pass_step[OF Cons.prems(2) st]
    have e: "stored_pos y' + (y - stored_pos y) = y'" by simp
    then have feq: "(\<lambda>z. stored_pos z + (y - stored_pos y))
        = (\<lambda>z. stored_pos z + (y' - stored_pos y'))"
      by (auto simp: fun_eq_iff algebra_simps)
    have "shift_laps y (map (\<lambda>z. stored_pos z + (y - stored_pos y)) (y' # ys))
        = y' # shift_laps y' (map (\<lambda>z. stored_pos z + (y - stored_pos y)) ys)"
      using False e by simp
    also have "\<dots> = y' # ys"
      by (simp only: feq IH)
    finally show ?thesis .
  qed
qed

lemma first_lap:
  assumes "0 \<le> y" and "y < corridor_length"
  shows "stored_pos y = y" and "wrap y corridor_length = y"
proof -
  have "lap y = 0" "\<not> 1000 \<le> y"
    using assms by (simp_all add: lap_first corridor_length_def)
  then show "stored_pos y = y" "wrap y corridor_length = y"
    by (simp_all add: stored_pos_lap wrap_lap)
qed

text \<open>
  The reconstruction is exact for every vehicle of a trace that starts on the first lap,
  never moves backwards and advances by less than half the corridor between samples.
\<close>

lemma reconstruct_exact:
  assumes rep: "list_all2 reports (y # ys) (map snd (observations_of k stream))"
    and start: "0 \<le> y" "y < corridor_length"
    and steps: "small_steps y ys"
  shows "pos (dict_get (parse_fcd_file stream) k) = y # ys"
proof -
  from rep obtain ob obs where obs: "map snd (observations_of k stream) = ob # obs"
    and r0: "reports y ob" and rest: "list_all2 reports ys obs"
    by (auto simp: list_all2_Cons1)
  have c0: "continuous_pos [] (obs_lane ob) (raw_pos ob) = y"
    using r0 start by (simp add: continuous_pos_corridor reports_def first_lap)
  have sp: "stored_pos y = y" using start by (rule first_lap)
  have "first_pass obs [y] = [y] @ map stored_pos ys"
    using steps start(1) rest by (intro first_pass_trajectory[of y]) (simp_all add: sp)
  then have fp: "first_pass (ob # obs) [] = y # map stored_pos ys"
    by (simp add: first_pass_def c0)
  have "shift_laps y (map (\<lambda>z. stored_pos z + (y - stored_pos y)) ys) = ys"
    using steps start(1) by (rule shift_laps_trajectory)
  then have "adjust_laps (y # map stored_pos ys) = y # ys"
    by (simp add: adjust_laps_Cons sp)
  then show ?thesis
    by (simp add: parse_fcd_file_vehicle(1) obs fp)
qed

lemma reports_ring_observation: "reports y (ring_observation k v ty y)"
  by (simp add: reports_def corridor_pos_def ring_observation_def Let_def)

lemma observations_of_ring_trace:
  "observations_of k (ring_trace k v step n)
     = map (\<lambda>i. (real i * step, ring_observation k v ''regular'' (v * (real i * step)))) [0..<n]"
proof -
  have "filter (\<lambda>p. veh_id (snd p) = k)
          (concat (map (\<lambda>(t, vehicles). map (Pair t) vehicles)
             (map (\<lambda>i. (real i * step, [ring_observation k v ''regular'' (v * (real i * step))])) is)))
      = map (\<lambda>i. (real i * step, ring_observation k v ''regular'' (v * (real i * step)))) is"
    for "is"
    by (induction "is") (simp_all add: ring_observation_def Let_def)
  then show ?thesis
    by (simp add: observations_of_def flatten_def ring_trace_def)
qed

lemma small_steps_linear:
  assumes "0 \<le> s" and "s < corridor_length / 2"
  shows "small_steps (s * real j) (map (\<lambda>i. s * real i) [Suc j..<n])"
proof (induction "n - Suc j" arbitrary: j)
  case 0
  then show ?case by simp
next
  case (Suc d)
  then have lt: "Suc j < n" and d: "d = n - Suc (Suc j)" by simp_all
  have "small_steps (s * real (Suc j)) (map (\<lambda>i. s * real i) [Suc (Suc j)..<n])"
    using d by (rule Suc.hyps(1))
  then show ?case
    using assms lt by (simp add: upt_conv_Cons algebra_simps)
qed

lemma small_steps_nth:
  assumes "small_steps y ys" and "Suc j < length (y # ys)"
  shows "(y # ys) ! j \<le> (y # ys) ! Suc j \<and> (y # ys) ! Suc j < (y # ys) ! j + 500"
  using assms
proof (induction ys arbitrary: y j)
  case Nil
  then show ?case by simp
next
  case (Cons y' ys)
  show ?case
  proof (cases j)
    case 0
    with Cons.prems show ?thesis by (simp add: corridor_length_def)
  next
    case (Suc j')
    with Cons.prems Cons.IH[of y' j'] show ?thesis by simp
  qed
qed

lemma small_steps_nonneg:
  assumes "small_steps y ys" and "0 \<le> y" and "j < length (y # ys)"
  shows "0 \<le> (y # ys) ! j"
  using assms
proof (induction ys arbitrary: y j)
  case Nil
  then show ?case by simp
next
  case (Cons y' ys)
  show ?case
  proof (cases j)
    case 0
    with Cons.prems show ?thesis by simp
  next
    case (Suc j')
    with Cons.prems Cons.IH[of y' j'] show ?thesis by simp
  qed
qed

text \<open>
  C3, as the code has it. For every vehicle of a trace that moves at the constant speed
  \<open>v\<close> on the corridor of length 1000 (the length the function fixes), starting at position
  0 at time 0 and sampled every \<open>step\<close> seconds any number \<open>n\<close> of times, its raw positions
  being \<open>v t\<close> modulo the corridor geometry: if the advance \<open>v step\<close> between two samples is
  positive and less than half the corridor, the reconstructed positions equal \<open>v t\<close> at every
  sample and increase strictly, over any number of laps.
\<close>

theorem lap_wrap_correctness:
  assumes "0 < v * step" and "v * step < corridor_length / 2"
    and "observations_of k stream
           = map (\<lambda>i. (real i * step, ring_observation k v ty (v * (real i * step)))) [0..<n]"
  shows "time (dict_get (parse_fcd_file stream) k) = map (\<lambda>i. real i * step) [0..<n]
       \<and> pos (dict_get (parse_fcd_file stream) k) = map (\<lambda>i. v * (real i * step)) [0..<n]
       \<and> sorted_wrt (<) (pos (dict_get (parse_fcd_file stream) k))"
proof -
  have t: "time (dict_get (parse_fcd_file stream) k) = map (\<lambda>i. real i * step) [0..<n]"
    by (simp add: parse_fcd_file_vehicle(2) assms(3) comp_def)
  have p: "pos (dict_get (parse_fcd_file stream) k) = map (\<lambda>i. (v * step) * real i) [0..<n]"
  proof (cases n)
    case 0
    then show ?thesis
      by (simp add: parse_fcd_file_vehicle(1) assms(3) first_pass_def adjust_laps_Nil)
  next
    case (Suc m)
    have ys: "map (\<lambda>i. (v * step) * real i) [0..<n]
        = (v * step) * real 0 # map (\<lambda>i. (v * step) * real i) [Suc 0..<n]"
      by (simp add: Suc upt_conv_Cons)
    have rep: "list_all2 reports (map (\<lambda>i. (v * step) * real i) [0..<n])
        (map snd (observations_of k stream))"
      by (simp add: assms(3) list_all2_map1 list_all2_map2 list_all2_same
          reports_ring_observation algebra_simps)
    have "pos (dict_get (parse_fcd_file stream) k)
        = (v * step) * real 0 # map (\<lambda>i. (v * step) * real i) [Suc 0..<n]"
    proof (rule reconstruct_exact)
      show "list_all2 reports ((v * step) * real 0 # map (\<lambda>i. (v * step) * real i) [Suc 0..<n])
          (map snd (observations_of k stream))"
        using rep unfolding ys .
      show "0 \<le> (v * step) * real 0" "(v * step) * real 0 < corridor_length"
        by (simp_all add: corridor_length_def)
      show "small_steps ((v * step) * real 0) (map (\<lambda>i. (v * step) * real i) [Suc 0..<n])"
        using assms(1,2) by (intro small_steps_linear) simp_all
    qed
    then show ?thesis unfolding ys .
  qed
  have inc: "sorted_wrt (<) (map (\<lambda>i. (v * step) * real i) [0..<n])"
  proof -
    have "(v * step) * real i < (v * step) * real j" if "i < j" for i j :: nat
      using that assms(1) by (intro mult_strict_left_mono) simp_all
    then have "sorted_wrt (\<lambda>i j. (v * step) * real i < (v * step) * real j) [0..<n]"
      by (rule sorted_wrt_mono_rel[of _ "(<)"]) simp_all
    then show ?thesis by (simp add: sorted_wrt_map)
  qed
  have e: "(\<lambda>i. v * (real i * step)) = (\<lambda>i. (v * step) * real i)"
    by (simp add: fun_eq_iff algebra_simps)
  show ?thesis
    unfolding e using t p inc by simp
qed

lemmas parse_defs = parse_fcd_file_vehicle observations_of_ring_trace first_pass_def
  continuous_pos_def adjust_laps_def lap_step_def ring_observation_def wrap_def
  corridor_length_def main_circle_length_def Let_def upt_conv_Cons eval_nat_numeral

text \<open>
  C3, witness: a vehicle advancing 320 m per sample, sampled 7 times (nearly two laps).
\<close>

theorem lap_wrap_correctness_witness:
  "(0::real) < 320 * 1 \<and> (320::real) * 1 < corridor_length / 2
   \<and> observations_of ''veh0'' (ring_trace ''veh0'' 320 1 7)
       = map (\<lambda>i. (real i * 1, ring_observation ''veh0'' 320 ''regular'' (320 * (real i * 1)))) [0..<7]
   \<and> pos (dict_get (parse_fcd_file (ring_trace ''veh0'' 320 1 7)) ''veh0'')
       = map (\<lambda>i. 320 * (real i * 1)) [0..<7]"
proof -
  have h1: "(0::real) < 320 * 1" by simp
  have h2: "(320::real) * 1 < corridor_length / 2" by (simp add: corridor_length_def)
  have h3: "observations_of ''veh0'' (ring_trace ''veh0'' 320 1 7)
       = map (\<lambda>i. (real i * 1, ring_observation ''veh0'' 320 ''regular'' (320 * (real i * 1)))) [0..<7]"
    by (rule observations_of_ring_trace)
  from lap_wrap_correctness[OF h1 h2 h3] h1 h2 h3 show ?thesis by blast
qed

text \<open>
  C3 as stated fails without a bound on the advance per sample: a vehicle at 30 m/s
  sampled every 20 s advances 600 m, more than half the corridor; over three laps (five
  samples, \<open>v t\<close> = 0, 600, 1200, 1800, 2400) no backward jump exceeds 500 and nothing is
  corrected.
\<close>

theorem lap_wrap_correctness_counterexample:
  "pos (dict_get (parse_fcd_file (ring_trace ''veh0'' 30 20 5)) ''veh0'') = [0, 600, 200, 800, 400]
   \<and> map (\<lambda>i. 30 * (real i * 20)) [0..<5] = [0, 600, 1200, 1800, 2400]"
  by (simp add: parse_defs)

text \<open>
  C8, as the code has it. For every vehicle of a trace that starts on the first lap, never
  moves backwards and advances by less than half the corridor between samples: at every
  sample on the connector \<^verbatim>\<open>b_0\<close> the reconstructed position is
  \<open>main_circle_length + raw_pos\<close> plus the corridor length times the number of laps completed,
  hence exactly \<open>main_circle_length + raw_pos\<close> during the first lap; and the transition onto
  the connector (previous sample on another lane at a raw position within the main circle,
  this sample on \<^verbatim>\<open>b_0\<close> at a raw position \<open>\<ge> 0\<close>) leaves the lap offset as it was: the
  reconstructed position exceeds the corridor position by the same amount before and after.
\<close>

theorem segment_stitching:
  assumes rep: "list_all2 reports (y # ys) (map snd (observations_of k stream))"
    and start: "0 \<le> y" "y < corridor_length"
    and steps: "small_steps y ys"
    and i: "i < length (y # ys)"
    and lane: "obs_lane (snd (observations_of k stream ! i)) = ''b_0''"
  shows "pos (dict_get (parse_fcd_file stream) k) ! i
           = main_circle_length + raw_pos (snd (observations_of k stream ! i))
             + corridor_length * of_int (lap ((y # ys) ! i))
       \<and> ((y # ys) ! i < corridor_length \<longrightarrow>
            pos (dict_get (parse_fcd_file stream) k) ! i
              = main_circle_length + raw_pos (snd (observations_of k stream ! i)))
       \<and> (0 < i \<and> obs_lane (snd (observations_of k stream ! (i - 1))) \<noteq> ''b_0''
            \<and> raw_pos (snd (observations_of k stream ! (i - 1))) \<le> main_circle_length
            \<and> 0 \<le> raw_pos (snd (observations_of k stream ! i)) \<longrightarrow>
            pos (dict_get (parse_fcd_file stream) k) ! i
              - (main_circle_length + raw_pos (snd (observations_of k stream ! i)))
            = pos (dict_get (parse_fcd_file stream) k) ! (i - 1)
              - raw_pos (snd (observations_of k stream ! (i - 1))))"
proof -
  let ?obs = "observations_of k stream"
  have out: "pos (dict_get (parse_fcd_file stream) k) = y # ys"
    using rep start steps by (rule reconstruct_exact)
  have len: "length ?obs = length (y # ys)"
    using list_all2_lengthD[OF rep] by simp
  have r: "reports ((y # ys) ! j) (snd (?obs ! j))" if "j < length (y # ys)" for j
    using list_all2_nthD[OF rep that] that len by simp
  have here: "main_circle_length + raw_pos (snd (?obs ! i)) = wrap ((y # ys) ! i) corridor_length"
    using r[OF i] lane by (simp add: reports_def corridor_pos_def)
  have 1: "(y # ys) ! i = main_circle_length + raw_pos (snd (?obs ! i))
             + corridor_length * of_int (lap ((y # ys) ! i))"
    unfolding here wrap_lap by (simp add: corridor_length_def)
  have nonneg: "0 \<le> (y # ys) ! i"
    using steps start(1) i by (rule small_steps_nonneg)
  have 2: "(y # ys) ! i = main_circle_length + raw_pos (snd (?obs ! i))"
    if "(y # ys) ! i < corridor_length"
    using here first_lap(2)[OF nonneg that] by simp
  have 3: "(y # ys) ! i - (main_circle_length + raw_pos (snd (?obs ! i)))
         = (y # ys) ! (i - 1) - raw_pos (snd (?obs ! (i - 1)))"
    if "0 < i" and l: "obs_lane (snd (?obs ! (i - 1))) \<noteq> ''b_0''"
      and before: "raw_pos (snd (?obs ! (i - 1))) \<le> main_circle_length"
      and after: "0 \<le> raw_pos (snd (?obs ! i))"
  proof -
    from \<open>0 < i\<close> i have j: "Suc (i - 1) < length (y # ys)" "Suc (i - 1) = i" "i - 1 < length (y # ys)"
      by simp_all
    from small_steps_nth[OF steps j(1)] j(2)
    have st: "(y # ys) ! (i - 1) \<le> (y # ys) ! i" "(y # ys) ! i < (y # ys) ! (i - 1) + 500"
      by simp_all
    have there: "raw_pos (snd (?obs ! (i - 1))) = wrap ((y # ys) ! (i - 1)) corridor_length"
      using r[OF j(3)] l by (simp add: reports_def corridor_pos_def)
    from lap_next[OF st] have "lap ((y # ys) ! i) = lap ((y # ys) ! (i - 1))"
    proof
      assume "lap ((y # ys) ! i) = lap ((y # ys) ! (i - 1)) + 1"
      then have "wrap ((y # ys) ! i) corridor_length
          < wrap ((y # ys) ! (i - 1)) corridor_length - 500"
        using st by (simp add: wrap_lap)
      with here there before after show ?thesis by simp
    qed
    then show ?thesis
      using here there by (simp add: wrap_lap)
  qed
  show ?thesis
    unfolding out using 1 2 3 by blast
qed

text \<open>
  C8, witness: the vehicle advancing 320 m per sample is on the connector at its fourth
  sample (true position 960, raw position 58.47), coming from the main circle.
\<close>

theorem segment_stitching_witness:
  "list_all2 reports (0 # map (\<lambda>i. 320 * real i) [1..<7])
      (map snd (observations_of ''veh0'' (ring_trace ''veh0'' 320 1 7)))
   \<and> (0::real) \<le> 0 \<and> (0::real) < corridor_length
   \<and> small_steps 0 (map (\<lambda>i. 320 * real i) [1..<7])
   \<and> 3 < length (0 # map (\<lambda>i. 320 * real i) [1..<7])
   \<and> obs_lane (snd (observations_of ''veh0'' (ring_trace ''veh0'' 320 1 7) ! 3)) = ''b_0''
   \<and> raw_pos (snd (observations_of ''veh0'' (ring_trace ''veh0'' 320 1 7) ! 3)) = 58.47
   \<and> pos (dict_get (parse_fcd_file (ring_trace ''veh0'' 320 1 7)) ''veh0'') ! 3
       = main_circle_length + 58.47"
proof -
  let ?obs = "observations_of ''veh0'' (ring_trace ''veh0'' 320 1 7)"
  have h1: "list_all2 reports (0 # map (\<lambda>i. 320 * real i) [1..<7]) (map snd ?obs)"
    by (simp add: observations_of_ring_trace upt_conv_Cons eval_nat_numeral reports_ring_observation)
  have h2: "(0::real) \<le> 0" "(0::real) < corridor_length"
    by (simp_all add: corridor_length_def)
  have h3: "small_steps 0 (map (\<lambda>i. 320 * real i) [1..<7])"
    by (simp add: upt_conv_Cons eval_nat_numeral corridor_length_def)
  have h4: "3 < length (0 # map (\<lambda>i. 320 * real i) [1..<7])" by simp
  have h5: "obs_lane (snd (?obs ! 3)) = ''b_0''" and raw: "raw_pos (snd (?obs ! 3)) = 58.47"
    by (simp_all add: parse_defs)
  have first: "(0 # map (\<lambda>i. 320 * real i) [1..<7]) ! 3 < corridor_length"
    by (simp add: upt_conv_Cons eval_nat_numeral corridor_length_def)
  from segment_stitching[OF h1 h2 h3 h4 h5, THEN conjunct2, THEN conjunct1] first raw
  have "pos (dict_get (parse_fcd_file (ring_trace ''veh0'' 320 1 7)) ''veh0'') ! 3
       = main_circle_length + 58.47"
    by simp
  with h1 h2 h3 h4 h5 raw show ?thesis by blast
qed

text \<open>
  C8 as stated fails after the first lap: at its seventh sample the same vehicle is on the
  connector again (true position 1920, raw position 18.47, coming from the main circle),
  and its reconstructed position is \<open>main_circle_length + raw_pos + 1000\<close>.
\<close>

theorem segment_stitching_counterexample:
  "obs_lane (snd (observations_of ''veh0'' (ring_trace ''veh0'' 320 1 7) ! 5)) = ''a_0''
   \<and> obs_lane (snd (observations_of ''veh0'' (ring_trace ''veh0'' 320 1 7) ! 6)) = ''b_0''
   \<and> raw_pos (snd (observations_of ''veh0'' (ring_trace ''veh0'' 320 1 7) ! 6)) = 18.47
   \<and> main_circle_length + 18.47 = 920
   \<and> pos (dict_get (parse_fcd_file (ring_trace ''veh0'' 320 1 7)) ''veh0'') ! 6 = 1920"
  by (simp add: parse_defs)

section \<open>Where the model of the remainder is used\<close>

text \<open>
  A grid has a cell only when \<^verbatim>\<open>total_length\<close> is not zero, so the body of the loops never
  takes a remainder by zero.
\<close>

lemma cells_total_length_nonzero:
  assumes "arange 0 (total_length + dx) dx = Inr x_bins" and "x_idx < length x_bins - 1"
  shows "total_length \<noteq> 0"
proof
  assume z: "total_length = 0"
  from assms(1) have dx: "dx \<noteq> 0" and len: "length x_bins = nat \<lceil>(total_length + dx) / dx\<rceil>"
    by (auto simp: arange_def split: if_splits)
  from dx z have "(total_length + dx) / dx = 1" by simp
  with len have "length x_bins = 1" by simp
  with assms(2) show False by simp
qed

section \<open>The concrete scenario under any sampling\<close>

lemma masked_map: "masked (map f xs) m = map f (masked xs m)"
proof (induction xs arbitrary: m)
  case Nil
  show ?case by (simp add: masked_def)
next
  case (Cons x xs)
  show ?case
  proof (cases m)
    case Nil
    then show ?thesis by (simp add: masked_def)
  next
    case (Cons b m')
    with Cons.IH[of m'] show ?thesis by (simp add: masked_def)
  qed
qed

lemma masked_filter: "masked xs (map P xs) = filter P xs"
  by (induction xs) (simp_all add: masked_def)

lemma set_masked: "set (masked xs m) \<subseteq> set xs"
proof (induction xs arbitrary: m)
  case Nil
  show ?case by (simp add: masked_def)
next
  case (Cons x xs)
  show ?case
  proof (cases m)
    case Nil
    then show ?thesis by (simp add: masked_def)
  next
    case (Cons b m')
    with Cons.IH[of m'] show ?thesis by (auto simp: masked_def)
  qed
qed

lemma scenario_wrap:
  assumes "0 \<le> t" and "t \<le> 100" and "100 \<le> wrap (10 * t) 1000"
  shows "wrap (10 * t) 1000 = 10 * t"
proof (cases "t = 100")
  case True
  with assms(3) show ?thesis by (simp add: wrap_def)
next
  case False
  with assms have "0 \<le> 10 * t" "10 * t < corridor_length"
    by (simp_all add: corridor_length_def)
  from first_lap(2)[OF this] show ?thesis by (simp add: corridor_length_def)
qed

text \<open>
  Whatever the sampling times within \<open>[0, 100]\<close>, a spatial bin of width at most 100 that
  starts at 100 or beyond receives less than 10 s from the scenario vehicle: the samples
  selected for the bin all lie within the 10 s the vehicle needs to cross it, and
  \<^verbatim>\<open>time_in_cell\<close> is at most the time between the first and the last of them.
\<close>

lemma scenario_any_sampling:
  assumes ts: "\<forall>t \<in> set ts. 0 \<le> t \<and> t \<le> 100"
    and cell: "100 \<le> x_start" "x_end \<le> x_start + 100"
    and run: "process_vehicle dt 1000 t_start t_end x_start x_end (sampled_vehicle ts) acc = Inr acc'"
  shows "total_time_spent acc' < total_time_spent acc + 10"
proof (cases "1 < length (window_times dt t_start t_end (sampled_vehicle ts))")
  case False
  with run have "acc' = acc"
    unfolding process_vehicle_def window_times_def time_mask_def
    by (simp add: bool_index_def Let_def sampled_vehicle_def split: if_splits)
  then show ?thesis by simp
next
  case True
  define times' where "times' = window_times dt t_start t_end (sampled_vehicle ts)"
  define inside where "inside = (\<lambda>t. x_start \<le> wrap (10 * t) 1000 \<and> wrap (10 * t) 1000 < x_end)"
  have pa: "parallel_arrays (sampled_vehicle ts)"
    by (simp add: parallel_arrays_def sampled_vehicle_def)
  have sub: "set times' \<subseteq> set ts"
    unfolding times'_def window_times_def using set_masked[of ts] by (simp add: sampled_vehicle_def)
  have positions: "window_positions dt 1000 t_start t_end (sampled_vehicle ts)
      = map (\<lambda>t. wrap (10 * t) 1000) times'"
    by (simp add: window_positions_def times'_def window_times_def time_mask_def
        sampled_vehicle_def masked_map)
  have cell_times: "masked times' (cell_mask x_start x_end
        (window_positions dt 1000 t_start t_end (sampled_vehicle ts))) = filter inside times'"
    unfolding positions cell_mask_def inside_def
    using masked_filter[of times' "\<lambda>t. x_start \<le> wrap (10 * t) 1000 \<and> wrap (10 * t) 1000 < x_end"]
    by (simp add: comp_def)
  have crossing: "10 * t = wrap (10 * t) 1000 \<and> x_start \<le> 10 * t \<and> 10 * t < x_start + 100"
    if "t \<in> set (filter inside times')" for t
  proof -
    from that sub ts have t: "0 \<le> t" "t \<le> 100" and i: "inside t" by auto
    from i cell have "100 \<le> wrap (10 * t) 1000" by (simp add: inside_def)
    from scenario_wrap[OF t this] i cell show ?thesis by (simp add: inside_def)
  qed
  show ?thesis
  proof (cases "filter inside times' = []")
    case e: True
    with run True have "acc' = acc"
      by (simp add: process_vehicle_window[OF pa True] Let_def cell_times times'_def[symmetric])
    then show ?thesis by simp
  next
    case ne: False
    then have "hd (filter inside times') \<in> set (filter inside times')"
      "last (filter inside times') \<in> set (filter inside times')"
      by (simp_all del: set_filter)
    from crossing[OF this(1)] crossing[OF this(2)]
    have "last (filter inside times') - hd (filter inside times') < 10" by simp
    then have "time_in_cell t_start t_end (filter inside times') < 10"
      by (simp add: time_in_cell_def min_def max_def)
    with run True ne show ?thesis
      by (auto simp: process_vehicle_window[OF pa True] Let_def cell_times times'_def[symmetric]
          split: if_splits)
  qed
qed

lemma aggregate_edges:
  assumes "fst (aggregate vehicles all_times tr dx dt total_length) = Inr (d, f, v, tb, xb)"
    and "x < length xb"
  shows "xb ! x = real x * dx"
proof -
  from assms(1) obtain x_bins where
    xbins: "arange 0 (total_length + dx) dx = Inr x_bins" and xb: "xb = butlast x_bins"
    unfolding aggregate_def Let_def
    by (auto split: if_splits sum.splits prod.splits option.splits)
  from assms(2) xb have "x < length x_bins" by simp
  from arange_nth[OF xbins this] assms(2) xb show ?thesis by (simp add: nth_butlast)
qed

text \<open>
  So for every sampling of the scenario vehicle within \<open>[0, 100]\<close> the returned density
  of every spatial bin but the first is below the 1.0 veh/km of the specification.
\<close>

lemma scenario_density_any_sampling:
  assumes ts: "\<forall>t \<in> set ts. 0 \<le> t \<and> t \<le> 100"
    and res: "fst (calculate_macroscopic_quantities [(k, sampled_vehicle ts)] 100 100 1000)
                = Inr (d, f, v, tb, xb)"
    and idx: "t_idx < length tb" "1 \<le> x_idx" "x_idx < length xb"
  shows "d ! t_idx ! x_idx < 1"
proof -
  from res idx obtain acc where
    loop: "vehicles_loop 100 1000 (tb ! t_idx) (tb ! t_idx + 100) (xb ! x_idx) (xb ! x_idx + 100)
             [(k, sampled_vehicle ts)] cell_acc0 = Inr acc"
    and val: "d ! t_idx ! x_idx = fst (cell_value 100 100 acc) * 1000"
    unfolding calculate_macroscopic_quantities_def
    using aggregate_cells[where vehicles = "\<lambda>t_start t_end x_start x_end.
        vehicles_loop 100 1000 t_start t_end x_start x_end"
        and tr = "[(k, sampled_vehicle ts)]" and dx = 100 and dt = 100 and total_length = 1000
        and d = d and f = f and v = v and tb = tb and xb = xb and t = t_idx and x = x_idx]
    by blast
  from loop have one: "process_vehicle 100 1000 (tb ! t_idx) (tb ! t_idx + 100)
      (xb ! x_idx) (xb ! x_idx + 100) (sampled_vehicle ts) cell_acc0 = Inr acc"
    by (simp split: sum.splits)
  have "xb ! x_idx = real x_idx * 100"
    using res idx(3) unfolding calculate_macroscopic_quantities_def by (rule aggregate_edges)
  with idx(2) have "100 \<le> xb ! x_idx" by simp
  from scenario_any_sampling[OF ts this _ one]
  have "total_time_spent acc < 10" by (simp add: cell_acc0_def)
  with val show ?thesis by (simp add: cell_value_def)
qed

section \<open>The table is read-only during the aggregation\<close>

text \<open>A store keeps another exactly when it extends it by further objects.\<close>

lemma keeps_iff: "keeps h h' \<longleftrightarrow> (\<exists>ys. h' = h @ ys)"
proof
  assume k: "keeps h h'"
  have "h' = take (length h) h' @ drop (length h) h'" by simp
  also have "take (length h) h' = h" using k unfolding keeps_def by (rule conjunct2)
  finally show "\<exists>ys. h' = h @ ys" by (rule exI)
next
  assume "\<exists>ys. h' = h @ ys"
  then obtain ys where "h' = h @ ys" ..
  then show "keeps h h'" by (simp add: keeps_def)
qed

lemma keeps_refl: "keeps h h"
  by (simp add: keeps_def)

lemma keeps_append: "keeps h (h @ ys)"
  by (simp add: keeps_def)

lemma keeps_trans:
  assumes "keeps h h1" and "keeps h1 h2"
  shows "keeps h h2"
proof -
  from assms obtain ys zs where "h1 = h @ ys" "h2 = h1 @ zs"
    unfolding keeps_iff by blast
  then have "h2 = h @ (ys @ zs)" by simp
  then show ?thesis unfolding keeps_iff by (rule exI)
qed

lemma keeps_length: "keeps h h' \<Longrightarrow> length h \<le> length h'"
  unfolding keeps_def by (rule conjunct1)

lemma keeps_nth:
  assumes "keeps h h'" and "a < length h"
  shows "h' ! a = h ! a"
proof -
  from assms(1) obtain ys where "h' = h @ ys" unfolding keeps_iff ..
  with assms(2) show ?thesis by (simp add: nth_append)
qed

lemma keeps_update:
  assumes "keeps h h'" and "length h \<le> a"
  shows "keeps h (h'[a := ob])"
proof -
  from assms(1) obtain ys where h': "h' = h @ ys" unfolding keeps_iff ..
  have "h'[a := ob] = h @ ys[a - length h := ob]"
    using assms(2) unfolding h' by (simp add: list_update_append)
  then show ?thesis unfolding keeps_iff by (rule exI)
qed

text \<open>A write that changes an object of the caller is seen: the store is not kept.\<close>

lemma keeps_detects_write:
  assumes "a < length h" and "h ! a \<noteq> ob"
  shows "\<not> keeps h (h[a := ob])"
proof
  assume "keeps h (h[a := ob])"
  from keeps_nth[OF this assms(1)] have "(h[a := ob]) ! a = h ! a" .
  with assms show False by simp
qed

lemma keeps_reads:
  assumes "keeps h h'" and "a < length h"
  shows "arr_at h' a = arr_at h a" "grid_at h' a = grid_at h a" "veh_at h' a = veh_at h a"
    "dict_at h' a = dict_at h a"
proof -
  have n: "h' ! a = h ! a" by (rule keeps_nth[OF assms])
  have l: "a < length h'" using keeps_length[OF assms(1)] assms(2) by simp
  show "arr_at h' a = arr_at h a" unfolding arr_at_def n using l assms(2) by simp
  show "grid_at h' a = grid_at h a" unfolding grid_at_def n using l assms(2) by simp
  show "veh_at h' a = veh_at h a" unfolding veh_at_def n using l assms(2) by simp
  show "dict_at h' a = dict_at h a" unfolding dict_at_def n using l assms(2) by simp
qed

lemma keeps_is_array:
  assumes "keeps h h'" and "is_array h a"
  shows "is_array h' a"
proof -
  from assms(2) have a: "a < length h" unfolding is_array_def by (rule conjunct1)
  have n: "h' ! a = h ! a" by (rule keeps_nth[OF assms(1) a])
  have l: "a < length h'" using keeps_length[OF assms(1)] a by simp
  show ?thesis using assms(2) l unfolding is_array_def n by simp
qed

lemma is_vehicle_iff:
  "is_vehicle h a \<longleftrightarrow>
     a < length h \<and> (\<exists>r. h ! a = Veh r) \<and> is_array h (time_ref (veh_at h a))
     \<and> is_array h (pos_ref (veh_at h a)) \<and> is_array h (speed_ref (veh_at h a))"
  unfolding is_vehicle_def veh_at_def
  by (cases "h ! a") simp_all

lemma keeps_is_vehicle:
  assumes "keeps h h'" and "is_vehicle h a"
  shows "is_vehicle h' a" and "veh_at h' a = veh_at h a" and "load_vehicle h' a = load_vehicle h a"
proof -
  from assms(2) have a: "a < length h" and r: "\<exists>r. h ! a = Veh r"
    and arrs: "is_array h (time_ref (veh_at h a))" "is_array h (pos_ref (veh_at h a))"
      "is_array h (speed_ref (veh_at h a))"
    unfolding is_vehicle_iff by blast+
  have n: "h' ! a = h ! a" by (rule keeps_nth[OF assms(1) a])
  have l: "a < length h'" using keeps_length[OF assms(1)] a by simp
  show v: "veh_at h' a = veh_at h a" by (rule keeps_reads(3)[OF assms(1) a])
  show "is_vehicle h' a"
    unfolding is_vehicle_iff v n using l r arrs keeps_is_array[OF assms(1)] by blast
  have lt: "time_ref (veh_at h a) < length h" "pos_ref (veh_at h a) < length h"
    "speed_ref (veh_at h a) < length h"
    using arrs unfolding is_array_def by blast+
  show "load_vehicle h' a = load_vehicle h a"
    unfolding load_vehicle_def v
    by (simp add: keeps_reads(1)[OF assms(1) lt(1)] keeps_reads(1)[OF assms(1) lt(2)]
        keeps_reads(1)[OF assms(1) lt(3)])
qed


lemma arr_at_append:
  "a < length h \<Longrightarrow> arr_at (h @ ys) a = arr_at h a"
  "arr_at (h @ ys) (length h + n) = arr_at ys n"
  by (simp_all add: arr_at_def nth_append)

lemma arr_at_new:
  "arr_at (h @ ys) (length h) = arr_at ys 0"
  "arr_at (h @ ys) (Suc (length h)) = arr_at ys (Suc 0)"
  "arr_at (h @ ys) (Suc (Suc (length h))) = arr_at ys (Suc (Suc 0))"
  "arr_at (h @ ys) (Suc (Suc (Suc (length h)))) = arr_at ys (Suc (Suc (Suc 0)))"
  "arr_at (h @ ys) (Suc (Suc (Suc (Suc (length h))))) = arr_at ys (Suc (Suc (Suc (Suc 0))))"
  "arr_at (h @ ys) (Suc (Suc (Suc (Suc (Suc (length h)))))) = arr_at ys (Suc (Suc (Suc (Suc (Suc 0)))))"
  using arr_at_append(2)[of h ys 0] arr_at_append(2)[of h ys "Suc 0"]
    arr_at_append(2)[of h ys "Suc (Suc 0)"] arr_at_append(2)[of h ys "Suc (Suc (Suc 0))"]
    arr_at_append(2)[of h ys "Suc (Suc (Suc (Suc 0)))"]
    arr_at_append(2)[of h ys "Suc (Suc (Suc (Suc (Suc 0))))"]
  by simp_all

lemma arr_at_Cons:
  "arr_at (Arr xs # ys) 0 = xs"
  "arr_at (y # ys) (Suc n) = arr_at ys n"
  by (simp_all add: arr_at_def)

lemma veh_at_append: "a < length h \<Longrightarrow> veh_at (h @ ys) a = veh_at h a"
  by (simp add: veh_at_def nth_append)

lemma np_index_result:
  "np_index a m h =
     (if length m = length (arr_at h a)
      then (Inr (length h), h @ [Arr (masked (arr_at h a) m)])
      else (Inl MaskLength, h))"
  by (simp add: np_index_def bool_index_def alloc_def)

text \<open>
  The body of the vehicle loop, case by case along its tests: in each case it returns what
  the value model returns on the arrays that the references of the vehicle denote, and the
  store after it is the store before it followed by the arrays it has created.
\<close>

lemma if_pair_same: "(if c then (a, s) else (b, s)) = (if c then a else b, s)"
  by simp

lemma process_vehicle_st_case2:
  assumes a: "data < length h"
    and lt: "time_ref (veh_at h data) < length h" "pos_ref (veh_at h data) < length h"
      "speed_ref (veh_at h data) < length h"
    and any: "np_any (map (\<lambda>t. t \<ge> t_start - dt \<and> t \<le> t_end + dt) (arr_at h (time_ref (veh_at h data))))"
    and lp: "length (arr_at h (pos_ref (veh_at h data))) \<noteq> length (arr_at h (time_ref (veh_at h data)))"
  shows "\<exists>ys. process_vehicle_st dt total_length t_start t_end x_start x_end data acc h
           = (process_vehicle dt total_length t_start t_end x_start x_end (load_vehicle h data) acc,
              h @ ys)"
  unfolding process_vehicle_st_def process_vehicle_def load_vehicle_def np_index_result
    np_remainder_def alloc_def bool_index_def Let_def
  using any a lt lp
  by (simp add: veh_at_append arr_at_append(1) split del: if_split)

lemma process_vehicle_st_case3:
  assumes a: "data < length h"
    and lt: "time_ref (veh_at h data) < length h" "pos_ref (veh_at h data) < length h"
      "speed_ref (veh_at h data) < length h"
    and any: "np_any (map (\<lambda>t. t \<ge> t_start - dt \<and> t \<le> t_end + dt) (arr_at h (time_ref (veh_at h data))))"
    and lp: "length (arr_at h (pos_ref (veh_at h data))) = length (arr_at h (time_ref (veh_at h data)))"
    and ls: "length (arr_at h (speed_ref (veh_at h data))) \<noteq> length (arr_at h (time_ref (veh_at h data)))"
  shows "\<exists>ys. process_vehicle_st dt total_length t_start t_end x_start x_end data acc h
           = (process_vehicle dt total_length t_start t_end x_start x_end (load_vehicle h data) acc,
              h @ ys)"
  unfolding process_vehicle_st_def process_vehicle_def load_vehicle_def np_index_result
    np_remainder_def alloc_def bool_index_def Let_def
  using any a lt lp ls
  by (simp add: veh_at_append arr_at_append(1) split del: if_split)

lemma process_vehicle_st_case4:
  assumes a: "data < length h"
    and lt: "time_ref (veh_at h data) < length h" "pos_ref (veh_at h data) < length h"
      "speed_ref (veh_at h data) < length h"
    and any: "np_any (map (\<lambda>t. t \<ge> t_start - dt \<and> t \<le> t_end + dt) (arr_at h (time_ref (veh_at h data))))"
    and lp: "length (arr_at h (pos_ref (veh_at h data))) = length (arr_at h (time_ref (veh_at h data)))"
    and ls: "length (arr_at h (speed_ref (veh_at h data))) = length (arr_at h (time_ref (veh_at h data)))"
    and one: "\<not> 1 < length (masked (arr_at h (time_ref (veh_at h data)))
                 (map (\<lambda>t. t \<ge> t_start - dt \<and> t \<le> t_end + dt) (arr_at h (time_ref (veh_at h data)))))"
  shows "\<exists>ys. process_vehicle_st dt total_length t_start t_end x_start x_end data acc h
           = (process_vehicle dt total_length t_start t_end x_start x_end (load_vehicle h data) acc,
              h @ ys)"
  unfolding process_vehicle_st_def process_vehicle_def load_vehicle_def np_index_result
    np_remainder_def alloc_def bool_index_def Let_def
  using any a lt lp ls one
  by (simp add: veh_at_append arr_at_append(1) arr_at_new arr_at_Cons split del: if_split)

lemma process_vehicle_st_case5:
  assumes a: "data < length h"
    and lt: "time_ref (veh_at h data) < length h" "pos_ref (veh_at h data) < length h"
      "speed_ref (veh_at h data) < length h"
    and any: "np_any (map (\<lambda>t. t \<ge> t_start - dt \<and> t \<le> t_end + dt) (arr_at h (time_ref (veh_at h data))))"
    and lp: "length (arr_at h (pos_ref (veh_at h data))) = length (arr_at h (time_ref (veh_at h data)))"
    and ls: "length (arr_at h (speed_ref (veh_at h data))) = length (arr_at h (time_ref (veh_at h data)))"
    and one: "1 < length (masked (arr_at h (time_ref (veh_at h data)))
                 (map (\<lambda>t. t \<ge> t_start - dt \<and> t \<le> t_end + dt) (arr_at h (time_ref (veh_at h data)))))"
  shows "\<exists>ys. process_vehicle_st dt total_length t_start t_end x_start x_end data acc h
           = (process_vehicle dt total_length t_start t_end x_start x_end (load_vehicle h data) acc,
              h @ ys)"
proof -
  have lm: "length (masked (arr_at h (pos_ref (veh_at h data)))
                 (map (\<lambda>t. t \<ge> t_start - dt \<and> t \<le> t_end + dt) (arr_at h (time_ref (veh_at h data)))))
          = length (masked (arr_at h (time_ref (veh_at h data)))
                 (map (\<lambda>t. t \<ge> t_start - dt \<and> t \<le> t_end + dt) (arr_at h (time_ref (veh_at h data)))))"
    using lp by (simp add: length_masked)
  show ?thesis
    unfolding process_vehicle_st_def process_vehicle_def load_vehicle_def np_index_result
      np_remainder_def alloc_def bool_index_def Let_def
    using any a lt lp ls one lm
    by (simp add: veh_at_append arr_at_append(1) arr_at_new arr_at_Cons if_pair_same
        split del: if_split cong: if_cong)
qed

lemma process_vehicle_st_refines:
  assumes "is_vehicle h data"
  shows "\<exists>ys. process_vehicle_st dt total_length t_start t_end x_start x_end data acc h
           = (process_vehicle dt total_length t_start t_end x_start x_end (load_vehicle h data) acc,
              h @ ys)"
proof -
  from assms have a: "data < length h"
    and arrs: "is_array h (time_ref (veh_at h data))" "is_array h (pos_ref (veh_at h data))"
      "is_array h (speed_ref (veh_at h data))"
    unfolding is_vehicle_iff by blast+
  have lt: "time_ref (veh_at h data) < length h" "pos_ref (veh_at h data) < length h"
    "speed_ref (veh_at h data) < length h"
    using arrs unfolding is_array_def by blast+
  note c2 = process_vehicle_st_case2[OF a lt] and c3 = process_vehicle_st_case3[OF a lt]
    and c4 = process_vehicle_st_case4[OF a lt] and c5 = process_vehicle_st_case5[OF a lt]
  let ?tm = "map (\<lambda>t. t \<ge> t_start - dt \<and> t \<le> t_end + dt) (arr_at h (time_ref (veh_at h data)))"
  show ?thesis
  proof (cases "np_any ?tm")
    case False
    then show ?thesis
      unfolding process_vehicle_st_def process_vehicle_def load_vehicle_def Let_def
      by (simp split del: if_split)
  next
    case any: True
    show ?thesis
    proof (cases "length (arr_at h (pos_ref (veh_at h data))) = length (arr_at h (time_ref (veh_at h data)))")
      case False
      from c2[OF any False] show ?thesis .
    next
      case lp: True
      show ?thesis
      proof (cases "length (arr_at h (speed_ref (veh_at h data))) = length (arr_at h (time_ref (veh_at h data)))")
        case False
        from c3[OF any lp False] show ?thesis .
      next
        case ls: True
        show ?thesis
        proof (cases "1 < length (masked (arr_at h (time_ref (veh_at h data))) ?tm)")
          case False
          from c4[OF any lp ls False] show ?thesis .
        next
          case True
          from c5[OF any lp ls True] show ?thesis .
        qed
      qed
    qed
  qed
qed

lemma vehicles_loop_st_refines:
  assumes "list_all (\<lambda>(vid, data). is_vehicle h data) ks"
  shows "\<exists>ys. vehicles_loop_st dt total_length t_start t_end x_start x_end ks acc h
           = (vehicles_loop dt total_length t_start t_end x_start x_end
                (map (\<lambda>(vid, data). (vid, load_vehicle h data)) ks) acc,
              h @ ys)"
  using assms
proof (induction ks arbitrary: acc h)
  case Nil
  show ?case by simp
next
  case (Cons k ks)
  obtain vid data where k: "k = (vid, data)" by (cases k)
  from Cons.prems have v: "is_vehicle h data"
    and rest: "list_all (\<lambda>(vid, data). is_vehicle h data) ks"
    by (simp_all add: k)
  from process_vehicle_st_refines[OF v] obtain ys where
    one: "process_vehicle_st dt total_length t_start t_end x_start x_end data acc h
           = (process_vehicle dt total_length t_start t_end x_start x_end (load_vehicle h data) acc,
              h @ ys)"
    by blast
  show ?case
  proof (cases "process_vehicle dt total_length t_start t_end x_start x_end (load_vehicle h data) acc")
    case (Inl e)
    with one show ?thesis by (simp add: k)
  next
    case (Inr acc')
    have kp: "keeps h (h @ ys)" by (rule keeps_append)
    have rest': "list_all (\<lambda>(vid, data). is_vehicle (h @ ys) data) ks"
      using rest keeps_is_vehicle(1)[OF kp] by (auto simp: list_all_iff)
    have same: "map (\<lambda>(vid, data). (vid, load_vehicle (h @ ys) data)) ks
              = map (\<lambda>(vid, data). (vid, load_vehicle h data)) ks"
      using rest keeps_is_vehicle(3)[OF kp] by (auto simp: list_all_iff)
    from Cons.IH[OF rest', of acc'] obtain zs where
      "vehicles_loop_st dt total_length t_start t_end x_start x_end ks acc' (h @ ys)
           = (vehicles_loop dt total_length t_start t_end x_start x_end
                (map (\<lambda>(vid, data). (vid, load_vehicle h data)) ks) acc',
              (h @ ys) @ zs)"
      unfolding same by blast
    with one Inr show ?thesis by (simp add: k)
  qed
qed

text \<open>
  The loops over the cells: every statement on the store is matched by the statement of the
  value model, and the writes go to the arrays that the call has created.
\<close>

lemma represents_reads:
  assumes "represents h0 trajectories t_bins x_bins density_a flow_a speed_a tb xb h s"
  shows "arr_at h t_bins = tb" "arr_at h x_bins = xb"
    "grid_at h density_a = density s" "grid_at h flow_a = flow s" "grid_at h speed_a = speed_grid s"
    "dict_at h trajectories = dict_at h0 trajectories"
    "list_all (\<lambda>(vid, data). is_vehicle h data) (dict_at h0 trajectories)"
    "map (\<lambda>(vid, data). (vid, load_vehicle h data)) (dict_at h0 trajectories) = table s"
proof -
  from assms have k: "keeps h0 h" and tab: "is_table h0 trajectories"
    and ts: "table s = load h0 trajectories"
    and lt: "t_bins < length h" "x_bins < length h" "density_a < length h" "flow_a < length h"
      "speed_a < length h"
    and at: "h ! t_bins = Arr tb" "h ! x_bins = Arr xb" "h ! density_a = Grid (density s)"
      "h ! flow_a = Grid (flow s)" "h ! speed_a = Grid (speed_grid s)"
    unfolding represents_def by simp_all
  show "arr_at h t_bins = tb" "arr_at h x_bins = xb"
    using lt at by (simp_all add: arr_at_def)
  show "grid_at h density_a = density s" "grid_at h flow_a = flow s" "grid_at h speed_a = speed_grid s"
    using lt at by (simp_all add: grid_at_def)
  from tab have tl: "trajectories < length h0"
    and vs: "list_all (\<lambda>(vid, data). is_vehicle h0 data) (dict_at h0 trajectories)"
    unfolding is_table_def dict_at_def by (auto split: obj.splits)
  show "dict_at h trajectories = dict_at h0 trajectories"
    by (rule keeps_reads(4)[OF k tl])
  show "list_all (\<lambda>(vid, data). is_vehicle h data) (dict_at h0 trajectories)"
    using vs keeps_is_vehicle(1)[OF k] by (auto simp: list_all_iff)
  show "map (\<lambda>(vid, data). (vid, load_vehicle h data)) (dict_at h0 trajectories) = table s"
    unfolding ts load_def
    using vs keeps_is_vehicle(3)[OF k] by (auto simp: list_all_iff)
qed

lemma represents_append:
  assumes "represents h0 trajectories t_bins x_bins density_a flow_a speed_a tb xb h s"
  shows "represents h0 trajectories t_bins x_bins density_a flow_a speed_a tb xb (h @ ys) s"
proof -
  from assms have k: "keeps h0 h" unfolding represents_def by (rule conjunct1)
  have "keeps h0 (h @ ys)" by (rule keeps_trans[OF k keeps_append])
  then show ?thesis
    using assms unfolding represents_def by (simp add: nth_append)
qed

lemma represents_write:
  assumes "represents h0 trajectories t_bins x_bins density_a flow_a speed_a tb xb h s"
  shows "represents h0 trajectories t_bins x_bins density_a flow_a speed_a tb xb
           (h[density_a := Grid g]) (s\<lparr>density := g\<rparr>)"
    and "represents h0 trajectories t_bins x_bins density_a flow_a speed_a tb xb
           (h[flow_a := Grid g]) (s\<lparr>flow := g\<rparr>)"
    and "represents h0 trajectories t_bins x_bins density_a flow_a speed_a tb xb
           (h[speed_a := Grid g]) (s\<lparr>speed_grid := g\<rparr>)"
proof -
  from assms have k: "keeps h0 h"
    and ge: "length h0 \<le> density_a" "length h0 \<le> flow_a" "length h0 \<le> speed_a"
    unfolding represents_def by simp_all
  note ks = keeps_update[OF k ge(1), of "Grid g"] keeps_update[OF k ge(2), of "Grid g"]
    keeps_update[OF k ge(3), of "Grid g"]
  show "represents h0 trajectories t_bins x_bins density_a flow_a speed_a tb xb
           (h[density_a := Grid g]) (s\<lparr>density := g\<rparr>)"
    using assms ks(1) unfolding represents_def by (auto simp: nth_list_update)
  show "represents h0 trajectories t_bins x_bins density_a flow_a speed_a tb xb
           (h[flow_a := Grid g]) (s\<lparr>flow := g\<rparr>)"
    using assms ks(2) unfolding represents_def by (auto simp: nth_list_update)
  show "represents h0 trajectories t_bins x_bins density_a flow_a speed_a tb xb
           (h[speed_a := Grid g]) (s\<lparr>speed_grid := g\<rparr>)"
    using assms ks(3) unfolding represents_def by (auto simp: nth_list_update)
qed

lemma finish_cell_st_eq:
  "finish_cell_st dx dt t x acc density_a flow_a speed_a h =
     (None,
      (if total_time_spent acc > 0
       then np_setitem speed_a t x (total_distance acc / total_time_spent acc)
       else (\<lambda>h. h))
        ((if dt > 0 then np_setitem flow_a t x (real (vehicles_crossed acc) / dt) else (\<lambda>h. h))
          ((if dx * dt > 0 then np_setitem density_a t x (total_time_spent acc / (dx * dt))
            else (\<lambda>h. h)) h)))"
  by (simp add: finish_cell_st_def seq_st_def skip_st_def assign_st_def py_div_def Let_def)

lemma represents_setitem:
  assumes "represents h0 trajectories t_bins x_bins density_a flow_a speed_a tb xb h s"
  shows "represents h0 trajectories t_bins x_bins density_a flow_a speed_a tb xb
           (np_setitem density_a t x v h) (s\<lparr>density := set2d (density s) t x v\<rparr>)"
    and "represents h0 trajectories t_bins x_bins density_a flow_a speed_a tb xb
           (np_setitem flow_a t x v h) (s\<lparr>flow := set2d (flow s) t x v\<rparr>)"
    and "represents h0 trajectories t_bins x_bins density_a flow_a speed_a tb xb
           (np_setitem speed_a t x v h) (s\<lparr>speed_grid := set2d (speed_grid s) t x v\<rparr>)"
  unfolding np_setitem_def represents_reads(3-5)[OF assms]
  by (rule represents_write[OF assms])+

lemma represents_imul:
  assumes "represents h0 trajectories t_bins x_bins density_a flow_a speed_a tb xb h s"
  shows "represents h0 trajectories t_bins x_bins density_a flow_a speed_a tb xb
           (np_imul density_a c h) (s\<lparr>density := scale c (density s)\<rparr>)"
    and "represents h0 trajectories t_bins x_bins density_a flow_a speed_a tb xb
           (np_imul flow_a c h) (s\<lparr>flow := scale c (flow s)\<rparr>)"
    and "represents h0 trajectories t_bins x_bins density_a flow_a speed_a tb xb
           (np_imul speed_a c h) (s\<lparr>speed_grid := scale c (speed_grid s)\<rparr>)"
  unfolding np_imul_def represents_reads(3-5)[OF assms]
  by (rule represents_write[OF assms])+

lemma finish_cell_st_sim:
  assumes R: "represents h0 trajectories t_bins x_bins density_a flow_a speed_a tb xb h s"
  shows "fst (finish_cell_st dx dt t x acc density_a flow_a speed_a h) = fst (finish_cell dx dt t x acc s)"
    and "represents h0 trajectories t_bins x_bins density_a flow_a speed_a tb xb
           (snd (finish_cell_st dx dt t x acc density_a flow_a speed_a h))
           (snd (finish_cell dx dt t x acc s))"
proof -
  show "fst (finish_cell_st dx dt t x acc density_a flow_a speed_a h) = fst (finish_cell dx dt t x acc s)"
    by (simp add: finish_cell_st_eq finish_cell_eq)
  let ?h1 = "(if dx * dt > 0 then np_setitem density_a t x (total_time_spent acc / (dx * dt))
              else (\<lambda>h. h)) h"
  let ?s1 = "if dx * dt > 0 then s\<lparr>density := set2d (density s) t x (total_time_spent acc / (dx * dt))\<rparr>
             else s"
  have R1: "represents h0 trajectories t_bins x_bins density_a flow_a speed_a tb xb ?h1 ?s1"
    using R represents_setitem(1)[OF R] by simp
  let ?h2 = "(if dt > 0 then np_setitem flow_a t x (real (vehicles_crossed acc) / dt) else (\<lambda>h. h)) ?h1"
  let ?s2 = "if dt > 0 then ?s1\<lparr>flow := set2d (flow ?s1) t x (real (vehicles_crossed acc) / dt)\<rparr>
             else ?s1"
  have R2: "represents h0 trajectories t_bins x_bins density_a flow_a speed_a tb xb ?h2 ?s2"
    using R1 represents_setitem(2)[OF R1] by simp
  let ?h3 = "(if total_time_spent acc > 0
              then np_setitem speed_a t x (total_distance acc / total_time_spent acc)
              else (\<lambda>h. h)) ?h2"
  let ?s3 = "if total_time_spent acc > 0
             then ?s2\<lparr>speed_grid := set2d (speed_grid ?s2) t x (total_distance acc / total_time_spent acc)\<rparr>
             else ?s2"
  have R3: "represents h0 trajectories t_bins x_bins density_a flow_a speed_a tb xb ?h3 ?s3"
    using R2 represents_setitem(3)[OF R2] by simp
  have "snd (finish_cell dx dt t x acc s) = ?s3"
    by (simp add: finish_cell_eq)
  moreover have "snd (finish_cell_st dx dt t x acc density_a flow_a speed_a h) = ?h3"
    by (simp add: finish_cell_st_eq)
  ultimately show "represents h0 trajectories t_bins x_bins density_a flow_a speed_a tb xb
           (snd (finish_cell_st dx dt t x acc density_a flow_a speed_a h))
           (snd (finish_cell dx dt t x acc s))"
    using R3 by simp
qed

lemma process_cell_st_sim:
  assumes R: "represents h0 trajectories t_bins x_bins density_a flow_a speed_a tb xb h s"
  shows "fst (process_cell_st trajectories dx dt total_length t_start t_end x_start x_end
                density_a flow_a speed_a t x h)
           = fst (process_cell (vehicles_loop dt total_length t_start t_end x_start x_end) dx dt t x s)
         \<and> represents h0 trajectories t_bins x_bins density_a flow_a speed_a tb xb
             (snd (process_cell_st trajectories dx dt total_length t_start t_end x_start x_end
                     density_a flow_a speed_a t x h))
             (snd (process_cell (vehicles_loop dt total_length t_start t_end x_start x_end) dx dt t x s))"
proof -
  note rd = represents_reads[OF R]
  from vehicles_loop_st_refines[OF rd(7), of dt total_length t_start t_end x_start x_end cell_acc0]
  obtain ys where loop:
    "vehicles_loop_st dt total_length t_start t_end x_start x_end
       (dict_at h0 trajectories) cell_acc0 h
     = (vehicles_loop dt total_length t_start t_end x_start x_end (table s) cell_acc0, h @ ys)"
    unfolding rd(8) by blast
  have R1: "represents h0 trajectories t_bins x_bins density_a flow_a speed_a tb xb (h @ ys) s"
    by (rule represents_append[OF R])
  show ?thesis
  proof (cases "vehicles_loop dt total_length t_start t_end x_start x_end (table s) cell_acc0")
    case (Inl e)
    then show ?thesis
      using loop R1 by (simp add: process_cell_st_def process_cell_def rd(6))
  next
    case (Inr acc)
    then show ?thesis
      using loop finish_cell_st_sim[OF R1, of dx dt t x acc]
      by (simp add: process_cell_st_def process_cell_def rd(6))
  qed
qed

lemma for_loop_sim:
  assumes step: "\<And>i h s. R h s \<Longrightarrow>
      fst (body_st i h) = fst (body i s) \<and> R (snd (body_st i h)) (snd (body i s))"
    and "R h s"
  shows "fst (for_loop_st body_st is h) = fst (for_loop body is s)
         \<and> R (snd (for_loop_st body_st is h)) (snd (for_loop body is s))"
  using assms(2)
proof (induction "is" arbitrary: h s)
  case Nil
  then show ?case by simp
next
  case (Cons i "is")
  obtain r h1 where b1: "body_st i h = (r, h1)" by (cases "body_st i h")
  obtain r' s1 where b2: "body i s = (r', s1)" by (cases "body i s")
  from step[OF Cons.prems, of i] b1 b2 have rr: "r' = r" and R1: "R h1 s1" by simp_all
  show ?case
  proof (cases r)
    case None
    with b1 b2 rr Cons.IH[OF R1] show ?thesis by simp
  next
    case (Some e)
    with b1 b2 rr R1 show ?thesis by simp
  qed
qed

lemma cell_loops_st_sim:
  assumes R: "represents h0 trajectories t_bins x_bins density_a flow_a speed_a tb xb h s"
  shows "fst (cell_loops_st trajectories dx dt total_length t_bins x_bins density_a flow_a speed_a h)
           = fst (cell_loops (\<lambda>t_start t_end x_start x_end.
                     vehicles_loop dt total_length t_start t_end x_start x_end) dx dt tb xb s)
         \<and> represents h0 trajectories t_bins x_bins density_a flow_a speed_a tb xb
             (snd (cell_loops_st trajectories dx dt total_length t_bins x_bins density_a flow_a speed_a h))
             (snd (cell_loops (\<lambda>t_start t_end x_start x_end.
                     vehicles_loop dt total_length t_start t_end x_start x_end) dx dt tb xb s))"
  unfolding cell_loops_st_def cell_loops_def Let_def represents_reads(1)[OF R]
proof (rule for_loop_sim[where R = "represents h0 trajectories t_bins x_bins density_a flow_a speed_a tb xb",
      OF _ R])
  fix t h1 s1
  assume R1: "represents h0 trajectories t_bins x_bins density_a flow_a speed_a tb xb h1 s1"
  show "fst (for_loop_st
              (\<lambda>x_idx h2. process_cell_st trajectories dx dt total_length
                  (arr_at h1 t_bins ! t) (arr_at h1 t_bins ! (t + 1))
                  (arr_at h2 x_bins ! x_idx) (arr_at h2 x_bins ! (x_idx + 1))
                  density_a flow_a speed_a t x_idx h2)
              [0..<length (arr_at h1 x_bins) - 1] h1)
        = fst (for_loop (\<lambda>x_idx. process_cell
                  (vehicles_loop dt total_length (tb ! t) (tb ! (t + 1)) (xb ! x_idx) (xb ! (x_idx + 1)))
                  dx dt t x_idx) [0..<length xb - 1] s1)
        \<and> represents h0 trajectories t_bins x_bins density_a flow_a speed_a tb xb
            (snd (for_loop_st
              (\<lambda>x_idx h2. process_cell_st trajectories dx dt total_length
                  (arr_at h1 t_bins ! t) (arr_at h1 t_bins ! (t + 1))
                  (arr_at h2 x_bins ! x_idx) (arr_at h2 x_bins ! (x_idx + 1))
                  density_a flow_a speed_a t x_idx h2)
              [0..<length (arr_at h1 x_bins) - 1] h1))
            (snd (for_loop (\<lambda>x_idx. process_cell
                  (vehicles_loop dt total_length (tb ! t) (tb ! (t + 1)) (xb ! x_idx) (xb ! (x_idx + 1)))
                  dx dt t x_idx) [0..<length xb - 1] s1))"
    unfolding represents_reads(1,2)[OF R1]
  proof (rule for_loop_sim[where
        R = "represents h0 trajectories t_bins x_bins density_a flow_a speed_a tb xb", OF _ R1])
    fix x h2 s2
    assume R2: "represents h0 trajectories t_bins x_bins density_a flow_a speed_a tb xb h2 s2"
    show "fst (process_cell_st trajectories dx dt total_length (tb ! t) (tb ! (t + 1))
                 (arr_at h2 x_bins ! x) (arr_at h2 x_bins ! (x + 1)) density_a flow_a speed_a t x h2)
          = fst (process_cell
                   (vehicles_loop dt total_length (tb ! t) (tb ! (t + 1)) (xb ! x) (xb ! (x + 1)))
                   dx dt t x s2)
          \<and> represents h0 trajectories t_bins x_bins density_a flow_a speed_a tb xb
              (snd (process_cell_st trajectories dx dt total_length (tb ! t) (tb ! (t + 1))
                 (arr_at h2 x_bins ! x) (arr_at h2 x_bins ! (x + 1)) density_a flow_a speed_a t x h2))
              (snd (process_cell
                   (vehicles_loop dt total_length (tb ! t) (tb ! (t + 1)) (xb ! x) (xb ! (x + 1)))
                   dx dt t x s2))"
      unfolding represents_reads(2)[OF R2] by (rule process_cell_st_sim[OF R2])
  qed
qed

text \<open>
  The whole call: what the caller receives is what the value model computes on the table
  that the reference denotes, and the store of the caller is kept.
\<close>

lemma zeros_like_zeros: "zeros r c = Inr z \<Longrightarrow> zeros_like z = z"
  by (auto simp: zeros_def zeros_like_def split: if_splits)

lemma grid_at_append: "grid_at (h @ ys) (length h + n) = grid_at ys n"
  by (simp add: grid_at_def nth_append)

lemma grid_at_new:
  "grid_at (h @ ys) (Suc (Suc (Suc (length h)))) = grid_at ys (Suc (Suc (Suc 0)))"
  using grid_at_append[of h ys "Suc (Suc (Suc 0))"] by simp

lemma grid_at_Cons:
  "grid_at (Grid g # ys) 0 = g"
  "grid_at (y # ys) (Suc n) = grid_at ys n"
  by (simp_all add: grid_at_def)

lemma all_times_load:
  "concat (map (\<lambda>(vid, data). time data) (load h trajectories))
     = concat (map (\<lambda>(vid, data). arr_at h (time_ref (veh_at h data))) (dict_at h trajectories))"
proof -
  have "concat (map (\<lambda>(vid, data). time data) (map (\<lambda>(vid, data). (vid, load_vehicle h data)) ks))
      = concat (map (\<lambda>(vid, data). arr_at h (time_ref (veh_at h data))) ks)" for ks
    by (induction ks) (auto simp: load_vehicle_def)
  then show ?thesis unfolding load_def .
qed

lemma calculate_st_unfold:
  assumes "concat (map (\<lambda>(vid, data). arr_at h (time_ref (veh_at h data))) (dict_at h trajectories)) = all_times"
    and "all_times \<noteq> []"
    and "arange 0 (total_length + dx) dx = Inr xs"
    and "arange (np_min all_times) (np_max all_times + dt) dt = Inr ts"
    and "zeros (int (length ts) - 1) (int (length xs) - 1) = Inr z"
  shows "calculate_macroscopic_quantities_st trajectories dx dt total_length h =
     (case cell_loops_st trajectories dx dt total_length
             (Suc (Suc (length h))) (Suc (length h)) (Suc (Suc (Suc (length h))))
             (Suc (Suc (Suc (Suc (length h))))) (Suc (Suc (Suc (Suc (Suc (length h))))))
             (h @ [Arr all_times, Arr xs, Arr ts, Grid z, Grid z, Grid z]) of
        (Some e, h7) \<Rightarrow> (Inl e, h7)
      | (None, h7) \<Rightarrow>
          (Inr (Suc (Suc (Suc (length h))), Suc (Suc (Suc (Suc (length h)))),
                Suc (Suc (Suc (Suc (Suc (length h))))),
                butlast (arr_at (np_imul (Suc (Suc (Suc (Suc (Suc (length h)))))) 3.6
                          (np_imul (Suc (Suc (Suc (Suc (length h))))) 3600
                            (np_imul (Suc (Suc (Suc (length h)))) 1000 h7))) (Suc (Suc (length h)))),
                butlast (arr_at (np_imul (Suc (Suc (Suc (Suc (Suc (length h)))))) 3.6
                          (np_imul (Suc (Suc (Suc (Suc (length h))))) 3600
                            (np_imul (Suc (Suc (Suc (length h)))) 1000 h7))) (Suc (length h)))),
           np_imul (Suc (Suc (Suc (Suc (Suc (length h)))))) 3.6
             (np_imul (Suc (Suc (Suc (Suc (length h))))) 3600
               (np_imul (Suc (Suc (Suc (length h)))) 1000 h7))))"
proof -
  have d: "dict_at h trajectories \<noteq> []" using assms(1,2) by auto
  show ?thesis
    unfolding calculate_macroscopic_quantities_st_def alloc_def Let_def assms(1)
    using d assms(2-5) zeros_like_zeros[OF assms(5)]
    by (simp add: arr_at_new arr_at_Cons grid_at_new grid_at_Cons split del: if_split
        cong: prod.case_cong option.case_cong)
qed

lemma calculate_st_errors:
  assumes "concat (map (\<lambda>(vid, data). arr_at h (time_ref (veh_at h data))) (dict_at h trajectories)) = all_times"
  shows "all_times = [] \<Longrightarrow>
           \<exists>ys. calculate_macroscopic_quantities_st trajectories dx dt total_length h
                  = (Inl EmptySequence, h @ ys)"
    and "all_times \<noteq> [] \<Longrightarrow> arange 0 (total_length + dx) dx = Inl e \<Longrightarrow>
           calculate_macroscopic_quantities_st trajectories dx dt total_length h
             = (Inl e, h @ [Arr all_times])"
    and "all_times \<noteq> [] \<Longrightarrow> arange 0 (total_length + dx) dx = Inr xs \<Longrightarrow>
           arange (np_min all_times) (np_max all_times + dt) dt = Inl e \<Longrightarrow>
           calculate_macroscopic_quantities_st trajectories dx dt total_length h
             = (Inl e, h @ [Arr all_times, Arr xs])"
    and "all_times \<noteq> [] \<Longrightarrow> arange 0 (total_length + dx) dx = Inr xs \<Longrightarrow>
           arange (np_min all_times) (np_max all_times + dt) dt = Inr ts \<Longrightarrow>
           zeros (int (length ts) - 1) (int (length xs) - 1) = Inl e \<Longrightarrow>
           calculate_macroscopic_quantities_st trajectories dx dt total_length h
             = (Inl e, h @ [Arr all_times, Arr xs, Arr ts])"
proof -
  show "\<exists>ys. calculate_macroscopic_quantities_st trajectories dx dt total_length h
                  = (Inl EmptySequence, h @ ys)" if "all_times = []"
  proof (cases "dict_at h trajectories = []")
    case True
    then show ?thesis
      by (simp add: calculate_macroscopic_quantities_st_def)
  next
    case False
    then have "calculate_macroscopic_quantities_st trajectories dx dt total_length h
                  = (Inl EmptySequence, h @ [Arr all_times])"
      unfolding calculate_macroscopic_quantities_st_def alloc_def Let_def assms
      using that by (simp add: arr_at_new arr_at_Cons split del: if_split)
    then show ?thesis by (rule exI)
  qed
  have d: "dict_at h trajectories \<noteq> []" if "all_times \<noteq> []"
    using assms that by auto
  show "calculate_macroscopic_quantities_st trajectories dx dt total_length h
             = (Inl e, h @ [Arr all_times])"
    if "all_times \<noteq> []" "arange 0 (total_length + dx) dx = Inl e"
    unfolding calculate_macroscopic_quantities_st_def alloc_def Let_def assms
    using that d by (simp add: arr_at_new arr_at_Cons split del: if_split)
  show "calculate_macroscopic_quantities_st trajectories dx dt total_length h
             = (Inl e, h @ [Arr all_times, Arr xs])"
    if "all_times \<noteq> []" "arange 0 (total_length + dx) dx = Inr xs"
      "arange (np_min all_times) (np_max all_times + dt) dt = Inl e"
    unfolding calculate_macroscopic_quantities_st_def alloc_def Let_def assms
    using that d by (simp add: arr_at_new arr_at_Cons split del: if_split)
  show "calculate_macroscopic_quantities_st trajectories dx dt total_length h
             = (Inl e, h @ [Arr all_times, Arr xs, Arr ts])"
    if "all_times \<noteq> []" "arange 0 (total_length + dx) dx = Inr xs"
      "arange (np_min all_times) (np_max all_times + dt) dt = Inr ts"
      "zeros (int (length ts) - 1) (int (length xs) - 1) = Inl e"
    unfolding calculate_macroscopic_quantities_st_def alloc_def Let_def assms
    using that d by (simp add: arr_at_new arr_at_Cons split del: if_split)
qed

lemma represents_initial:
  assumes "is_table h trajectories"
  shows "represents h trajectories (Suc (Suc (length h))) (Suc (length h)) (Suc (Suc (Suc (length h))))
           (Suc (Suc (Suc (Suc (length h))))) (Suc (Suc (Suc (Suc (Suc (length h)))))) ts xs
           (h @ [Arr all_times, Arr xs, Arr ts, Grid z, Grid z, Grid z])
           \<lparr>table = load h trajectories, density = z, flow = z, speed_grid = z\<rparr>"
  unfolding represents_def
  using assms by (simp add: keeps_append nth_append)

lemma calculate_st_refines:
  assumes tab: "is_table h trajectories"
  shows "outcome (calculate_macroscopic_quantities_st trajectories dx dt total_length h)
           = fst (calculate_macroscopic_quantities (load h trajectories) dx dt total_length)
         \<and> keeps h (snd (calculate_macroscopic_quantities_st trajectories dx dt total_length h))"
proof -
  define all_times where
    "all_times = concat (map (\<lambda>(vid, data). arr_at h (time_ref (veh_at h data))) (dict_at h trajectories))"
  have at: "concat (map (\<lambda>(vid, data). arr_at h (time_ref (veh_at h data))) (dict_at h trajectories))
      = all_times"
    by (simp add: all_times_def)
  have pure: "calculate_macroscopic_quantities (load h trajectories) dx dt total_length
      = aggregate (\<lambda>t_start t_end x_start x_end.
            vehicles_loop dt total_length t_start t_end x_start x_end)
          all_times (load h trajectories) dx dt total_length"
    unfolding calculate_macroscopic_quantities_def all_times_load at ..
  note err = calculate_st_errors[OF at]
  show ?thesis
  proof (cases "all_times = []")
    case True
    from err(1)[OF True] obtain ys where
      "calculate_macroscopic_quantities_st trajectories dx dt total_length h
         = (Inl EmptySequence, h @ ys)" ..
    then show ?thesis
      unfolding pure using True by (simp add: outcome_def aggregate_def keeps_append)
  next
    case ne: False
    show ?thesis
    proof (cases "arange 0 (total_length + dx) dx")
      case (Inl e)
      then show ?thesis
        unfolding pure err(2)[OF ne Inl] using ne by (simp add: outcome_def aggregate_def keeps_append)
    next
      case xs: (Inr xs)
      show ?thesis
      proof (cases "arange (np_min all_times) (np_max all_times + dt) dt")
        case (Inl e)
        then show ?thesis
          unfolding pure err(3)[OF ne xs Inl] using ne xs
          by (simp add: outcome_def aggregate_def keeps_append)
      next
        case ts: (Inr ts)
        show ?thesis
        proof (cases "zeros (int (length ts) - 1) (int (length xs) - 1)")
          case (Inl e)
          then show ?thesis
            unfolding pure err(4)[OF ne xs ts Inl] using ne xs ts
            by (simp add: outcome_def aggregate_def keeps_append)
        next
          case z: (Inr z)
          let ?tb = "Suc (Suc (length h))"
          let ?xb = "Suc (length h)"
          let ?d = "Suc (Suc (Suc (length h)))"
          let ?f = "Suc (Suc (Suc (Suc (length h))))"
          let ?v = "Suc (Suc (Suc (Suc (Suc (length h)))))"
          let ?h6 = "h @ [Arr all_times, Arr xs, Arr ts, Grid z, Grid z, Grid z]"
          let ?s0 = "\<lparr>table = load h trajectories, density = z, flow = z, speed_grid = z\<rparr>"
          let ?vehicles = "\<lambda>t_start t_end x_start x_end.
              vehicles_loop dt total_length t_start t_end x_start x_end"
          have R0: "represents h trajectories ?tb ?xb ?d ?f ?v ts xs ?h6 ?s0"
            by (rule represents_initial[OF tab])
          obtain r h7 where st: "cell_loops_st trajectories dx dt total_length ?tb ?xb ?d ?f ?v ?h6 = (r, h7)"
            by (cases "cell_loops_st trajectories dx dt total_length ?tb ?xb ?d ?f ?v ?h6")
          obtain r' s7 where pu: "cell_loops ?vehicles dx dt ts xs ?s0 = (r', s7)"
            by (cases "cell_loops ?vehicles dx dt ts xs ?s0")
          from cell_loops_st_sim[OF R0, of dx dt total_length] st pu
          have rr: "r' = r" and R7: "represents h trajectories ?tb ?xb ?d ?f ?v ts xs h7 s7"
            by simp_all
          have unf: "calculate_macroscopic_quantities_st trajectories dx dt total_length h =
             (case r of
                Some e \<Rightarrow> (Inl e, h7)
              | None \<Rightarrow>
                  (Inr (?d, ?f, ?v,
                        butlast (arr_at (np_imul ?v 3.6 (np_imul ?f 3600 (np_imul ?d 1000 h7))) ?tb),
                        butlast (arr_at (np_imul ?v 3.6 (np_imul ?f 3600 (np_imul ?d 1000 h7))) ?xb)),
                   np_imul ?v 3.6 (np_imul ?f 3600 (np_imul ?d 1000 h7))))"
            unfolding calculate_st_unfold[OF at ne xs ts z] st by (cases r) simp_all
          have agg: "aggregate ?vehicles all_times (load h trajectories) dx dt total_length =
             (case r of
                Some e \<Rightarrow> (Inl e, table s7)
              | None \<Rightarrow>
                  (Inr (scale 1000 (density s7), scale 3600 (flow s7), scale 3.6 (speed_grid s7),
                        butlast ts, butlast xs),
                   table s7))"
            unfolding aggregate_def Let_def using ne xs ts z pu rr by (cases r) simp_all
          show ?thesis
          proof (cases r)
            case (Some e)
            from R7 have "keeps h h7" unfolding represents_def by (rule conjunct1)
            then show ?thesis
              unfolding pure unf agg Some by (simp add: outcome_def)
          next
            case None
            note R8 = represents_imul(1)[OF R7, of 1000]
            note R9 = represents_imul(2)[OF R8, of 3600]
            note R10 = represents_imul(3)[OF R9, of "3.6"]
            from R10 have k: "keeps h (np_imul ?v 3.6 (np_imul ?f 3600 (np_imul ?d 1000 h7)))"
              unfolding represents_def by (rule conjunct1)
            note rd = represents_reads(1-5)[OF R10]
            show ?thesis
              unfolding pure unf agg None using k rd by (simp add: outcome_def)
          qed
        qed
      qed
    qed
  qed
qed

lemma keeps_table:
  assumes "keeps h h'" and "is_table h trajectories"
  shows "is_table h' trajectories" and "load h' trajectories = load h trajectories"
proof -
  from assms(2) have tl: "trajectories < length h"
    and dict: "\<exists>ks. h ! trajectories = Dict ks"
    and vs: "list_all (\<lambda>(vid, data). is_vehicle h data) (dict_at h trajectories)"
    unfolding is_table_def dict_at_def by (auto split: obj.splits)
  have n: "h' ! trajectories = h ! trajectories" by (rule keeps_nth[OF assms(1) tl])
  have l: "trajectories < length h'" using keeps_length[OF assms(1)] tl by simp
  have d: "dict_at h' trajectories = dict_at h trajectories" by (rule keeps_reads(4)[OF assms(1) tl])
  have vs': "list_all (\<lambda>(vid, data). is_vehicle h' data) (dict_at h trajectories)"
    using vs keeps_is_vehicle(1)[OF assms(1)] by (auto simp: list_all_iff)
  from dict obtain ks where ks: "h ! trajectories = Dict ks" ..
  then have "dict_at h trajectories = ks" using tl by (simp add: dict_at_def)
  with vs' l n ks show "is_table h' trajectories" by (simp add: is_table_def)
  show "load h' trajectories = load h trajectories"
    unfolding load_def d
    using vs keeps_is_vehicle(3)[OF assms(1)] by (auto simp: list_all_iff)
qed

text \<open>
  C9. For every store in which the reference \<^verbatim>\<open>trajectories\<close> denotes a table (a dict of
  per-vehicle dicts whose entries refer to arrays), and for all grid parameters, whether
  the call returns or raises: the store after the call begins with the store before it,
  object by object, so every object that existed before the call (the table, the dicts of
  the vehicles, their time, position and speed arrays) is unchanged; the reference
  therefore denotes the same table after the call; a second run, on the store that the
  first run leaves, gives the caller the same exception or arrays with the same contents;
  and what the caller receives is what the value model of the previous sections computes
  on the table. The call only creates objects (\<^verbatim>\<open>a[mask]\<close>, \<^verbatim>\<open>a % c\<close>, the grid) and writes
  (\<^verbatim>\<open>a[i, j] = v\<close>, \<^verbatim>\<open>a *= c\<close>) into three arrays that it has created itself.
\<close>

theorem table_read_only:
  assumes "is_table h trajectories"
  shows "take (length h) (snd (calculate_macroscopic_quantities_st trajectories dx dt total_length h)) = h
       \<and> load (snd (calculate_macroscopic_quantities_st trajectories dx dt total_length h)) trajectories
           = load h trajectories
       \<and> outcome (calculate_macroscopic_quantities_st trajectories dx dt total_length
                    (snd (calculate_macroscopic_quantities_st trajectories dx dt total_length h)))
           = outcome (calculate_macroscopic_quantities_st trajectories dx dt total_length h)
       \<and> outcome (calculate_macroscopic_quantities_st trajectories dx dt total_length h)
           = fst (calculate_macroscopic_quantities (load h trajectories) dx dt total_length)"
proof -
  let ?h' = "snd (calculate_macroscopic_quantities_st trajectories dx dt total_length h)"
  from calculate_st_refines[OF assms, of dx dt total_length]
  have out: "outcome (calculate_macroscopic_quantities_st trajectories dx dt total_length h)
           = fst (calculate_macroscopic_quantities (load h trajectories) dx dt total_length)"
    and k: "keeps h ?h'"
    by simp_all
  from k have frame: "take (length h) ?h' = h" unfolding keeps_def by (rule conjunct2)
  note t' = keeps_table[OF k assms]
  from calculate_st_refines[OF t'(1), of dx dt total_length]
  have "outcome (calculate_macroscopic_quantities_st trajectories dx dt total_length ?h')
           = fst (calculate_macroscopic_quantities (load ?h' trajectories) dx dt total_length)"
    by simp
  then have again: "outcome (calculate_macroscopic_quantities_st trajectories dx dt total_length ?h')
           = outcome (calculate_macroscopic_quantities_st trajectories dx dt total_length h)"
    unfolding t'(2) out .
  from frame t'(2) again out show ?thesis by blast
qed

text \<open>
  C9, witness: the store with one vehicle sampled at times 0 and 1 at positions 12 and 15,
  on a corridor of length 20 with \<open>dx = dt = 10\<close>. The call returns, and creates objects
  after the five of the caller.
\<close>

theorem table_read_only_witness:
  "is_table small_store 4
   \<and> take (length small_store) (snd (calculate_macroscopic_quantities_st 4 10 10 20 small_store))
       = small_store
   \<and> load (snd (calculate_macroscopic_quantities_st 4 10 10 20 small_store)) 4 = load small_store 4
   \<and> outcome (calculate_macroscopic_quantities_st 4 10 10 20
                (snd (calculate_macroscopic_quantities_st 4 10 10 20 small_store)))
       = outcome (calculate_macroscopic_quantities_st 4 10 10 20 small_store)
   \<and> load small_store 4 = [(''veh0'', two_samples 0 12 1 15)]
   \<and> outcome (calculate_macroscopic_quantities_st 4 10 10 20 small_store)
       = Inr ([[0, 10]], [[0, 0]], [[0, 54 / 5]], [0], [0, 10])"
proof -
  have t: "is_table small_store 4"
    by (simp add: is_table_def is_vehicle_def is_array_def small_store_def)
  have l: "load small_store 4 = [(''veh0'', two_samples 0 12 1 15)]"
    by (simp add: load_def load_vehicle_def dict_at_def veh_at_def arr_at_def small_store_def
        two_samples_def)
  have v: "fst (calculate_macroscopic_quantities [(''veh0'', two_samples 0 12 1 15)] 10 10 20)
      = Inr ([[0, 10]], [[0, 0]], [[0, 54 / 5]], [0], [0, 10])"
    by (simp add: grid_defs eval_defs two_samples_def)
  from table_read_only[OF t, of 10 10 20] t l v show ?thesis by simp
qed

end
